theory Spec2Isabelle
  imports Complex_Main
begin

section \<open>Characters of the calculator\<close>

text \<open>
  The calculator screen (\<^verbatim>\<open>CalculatorScreen\<close>, \<^verbatim>\<open>src/client/screens/NotesScreen.tsx\<close>)
  works on JavaScript strings. A \<^typ>\<open>char\<close> stands for the UTF-16 code unit with the same
  number, so the strings of this theory are the JavaScript strings whose code units are below 256.
  Everything the keypad can put into the buffer is ASCII; the multiplication and division glyphs
  that \<^verbatim>\<open>evaluateExpression\<close> normalises are the code units 215 and 247.
\<close>

text \<open>The regular expression \<^verbatim>\<open>\d\<close>.\<close>

definition is_digit :: "char \<Rightarrow> bool" where
  "is_digit c = (c \<in> set ''0123456789'')"

text \<open>The character class \<^verbatim>\<open>[+\-*/]\<close>.\<close>

definition is_operator :: "char \<Rightarrow> bool" where
  "is_operator c = (c \<in> set ''+-*/'')"

text \<open>
  The regular expression \<^verbatim>\<open>\s\<close> on code units below 256: tab, line feed, vertical tab,
  form feed, carriage return, space and the no-break space.
\<close>

definition is_space :: "char \<Rightarrow> bool" where
  "is_space c = (of_char c \<in> {9, 10, 11, 12, 13, 32, 160 :: nat})"

section \<open>JavaScript numbers\<close>

text \<open>
  A JavaScript number is an IEEE 754 binary64 value: not-a-number, an infinity with its sign, or a
  finite value with its sign (\<open>True\<close> is negative) and its magnitude, a rational number that
  a binary64 represents exactly. Zero carries a sign.
\<close>

datatype double = NaN | Infinity bool | Finite bool rat

definition pow2 :: "int \<Rightarrow> rat" where
  "pow2 e = (if 0 \<le> e then 2 ^ nat e else 1 / 2 ^ nat (- e))"

definition pow10 :: "int \<Rightarrow> rat" where
  "pow10 e = (if 0 \<le> e then 10 ^ nat e else 1 / 10 ^ nat (- e))"

text \<open>The number of times \<open>n\<close> can be divided by \<open>b\<close> before it drops below \<open>b\<close>:
  the integer logarithm of a positive \<open>n\<close>.\<close>

function ilog :: "int \<Rightarrow> int \<Rightarrow> int" where
  "ilog b n = (if b < 2 \<or> n < b then 0 else 1 + ilog b (n div b))"
  by pat_completeness auto
termination
  by (relation "measure (\<lambda>(b, n). nat n)") (auto intro: int_div_less_self)

declare ilog.simps [simp del]

text \<open>For a positive rational \<open>a\<close>, the exponent \<open>e\<close> with \<open>2 ^ e \<le> a < 2 ^ (e + 1)\<close>.\<close>

definition floor_log2 :: "rat \<Rightarrow> int" where
  "floor_log2 a =
     (let d = (if 1 \<le> a then ilog 2 \<lfloor>a\<rfloor> else - ilog 2 \<lfloor>1 / a\<rfloor>)
      in if pow2 d \<le> a then d else d - 1)"

text \<open>For a positive rational \<open>a\<close>, the exponent \<open>n\<close> with \<open>10 ^ (n - 1) \<le> a < 10 ^ n\<close>.\<close>

definition decimal_exponent :: "rat \<Rightarrow> int" where
  "decimal_exponent a =
     (let d = (if 1 \<le> a then ilog 10 \<lfloor>a\<rfloor> else - ilog 10 \<lfloor>1 / a\<rfloor>)
      in if pow10 d \<le> a then d + 1 else d)"

definition round_half_even :: "rat \<Rightarrow> int" where
  "round_half_even x =
     (let f = \<lfloor>x\<rfloor>; d = x - of_int f
      in if d < 1 / 2 then f
         else if 1 / 2 < d then f + 1
         else if even f then f else f + 1)"

text \<open>
  Rounding of an exact magnitude \<open>a \<ge> 0\<close> with sign \<open>s\<close> to binary64, to nearest with
  ties to even: 53 significant bits, the unit in the last place never below \<open>2 ^ - 1074\<close>,
  and infinity once the rounded magnitude reaches \<open>2 ^ 1024\<close>.
\<close>

definition round_double :: "bool \<Rightarrow> rat \<Rightarrow> double" where
  "round_double s a =
     (if a = 0 then Finite s 0
      else let e = floor_log2 a;
               q = max (e - 52) (- 1074);
               v = of_int (round_half_even (a / pow2 q)) * pow2 q
           in if pow2 1024 \<le> v then Infinity s else Finite s v)"

text \<open>The exact value of a finite number.\<close>

definition signed :: "bool \<Rightarrow> rat \<Rightarrow> rat" where
  "signed s m = (if s then - m else m)"

fun dneg :: "double \<Rightarrow> double" where
  "dneg NaN = NaN"
| "dneg (Infinity s) = Infinity (\<not> s)"
| "dneg (Finite s m) = Finite (\<not> s) m"

fun dadd :: "double \<Rightarrow> double \<Rightarrow> double" where
  "dadd NaN y = NaN"
| "dadd x NaN = NaN"
| "dadd (Infinity s) (Infinity t) = (if s = t then Infinity s else NaN)"
| "dadd (Infinity s) (Finite t n) = Infinity s"
| "dadd (Finite s m) (Infinity t) = Infinity t"
| "dadd (Finite s m) (Finite t n) =
     (let r = signed s m + signed t n
      in if r = 0 then Finite (s \<and> t) 0 else round_double (r < 0) \<bar>r\<bar>)"

definition dsub :: "double \<Rightarrow> double \<Rightarrow> double" where
  "dsub x y = dadd x (dneg y)"

fun dmul :: "double \<Rightarrow> double \<Rightarrow> double" where
  "dmul NaN y = NaN"
| "dmul x NaN = NaN"
| "dmul (Infinity s) (Infinity t) = Infinity (s \<noteq> t)"
| "dmul (Infinity s) (Finite t n) = (if n = 0 then NaN else Infinity (s \<noteq> t))"
| "dmul (Finite s m) (Infinity t) = (if m = 0 then NaN else Infinity (s \<noteq> t))"
| "dmul (Finite s m) (Finite t n) = round_double (s \<noteq> t) (m * n)"

fun ddiv :: "double \<Rightarrow> double \<Rightarrow> double" where
  "ddiv NaN y = NaN"
| "ddiv x NaN = NaN"
| "ddiv (Infinity s) (Infinity t) = NaN"
| "ddiv (Infinity s) (Finite t n) = Infinity (s \<noteq> t)"
| "ddiv (Finite s m) (Infinity t) = Finite (s \<noteq> t) 0"
| "ddiv (Finite s m) (Finite t n) =
     (if n = 0 then (if m = 0 then NaN else Infinity (s \<noteq> t))
      else round_double (s \<noteq> t) (m / n))"

text \<open>\<^verbatim>\<open>isFinite\<close> on a number.\<close>

fun is_finite :: "double \<Rightarrow> bool" where
  "is_finite (Finite s m) = True"
| "is_finite x = False"

text \<open>
  \<^verbatim>\<open>Math.round\<close>: the nearest integer, a tie going up; the result is a negative zero for
  a negative zero and for the values from \<open>- 1 / 2\<close> up to zero.
\<close>

fun Math_round :: "double \<Rightarrow> double" where
  "Math_round (Finite s m) =
     (let r = \<lfloor>signed s m + 1 / 2\<rfloor>
      in Finite (if r = 0 then s else r < 0) (of_int \<bar>r\<bar>))"
| "Math_round x = x"

subsection \<open>Number to string\<close>

definition digit_char :: "int \<Rightarrow> char" where
  "digit_char d =
     (if d = 0 then CHR ''0'' else if d = 1 then CHR ''1'' else if d = 2 then CHR ''2''
      else if d = 3 then CHR ''3'' else if d = 4 then CHR ''4'' else if d = 5 then CHR ''5''
      else if d = 6 then CHR ''6'' else if d = 7 then CHR ''7'' else if d = 8 then CHR ''8''
      else CHR ''9'')"

text \<open>The decimal digits of a natural number held in an \<^typ>\<open>int\<close>.\<close>

function digits_of :: "int \<Rightarrow> string" where
  "digits_of n =
     (if n < 10 then [digit_char n] else digits_of (n div 10) @ [digit_char (n mod 10)])"
  by pat_completeness auto
termination
  by (relation "measure nat") (auto intro: int_div_less_self)

declare digits_of.simps [simp del]

text \<open>
  \<^verbatim>\<open>Number::toString\<close> of a positive finite \<open>x\<close> asks for integers \<open>n\<close>, \<open>k\<close> and
  \<open>s\<close> with \<open>k \<ge> 1\<close>, \<open>10 ^ (k - 1) \<le> s < 10 ^ k\<close>, \<open>s * 10 ^ (n - k)\<close> rounding to \<open>x\<close>
  and \<open>k\<close> as small as possible; among several \<open>s\<close> the one whose value is closest to \<open>x\<close>.
  With \<open>n0 = decimal_exponent x\<close>, a \<open>k\<close>-digit decimal that rounds to \<open>x\<close> is one of the
  two \<open>k\<close>-digit neighbours of \<open>x\<close>; the upper neighbour may be the power \<open>10 ^ n0\<close>,
  which has the exponent \<open>n0 + 1\<close>.
\<close>

definition candidates :: "rat \<Rightarrow> int \<Rightarrow> int \<Rightarrow> (int \<times> int) list" where
  "candidates x n0 k =
     (let lo = \<lfloor>x / pow10 (n0 - k)\<rfloor>
      in filter (\<lambda>(s, n). round_double False (of_int s * pow10 (n - k)) = Finite False x)
           [(lo, n0),
            (if lo + 1 = 10 ^ nat k then (10 ^ nat (k - 1), n0 + 1) else (lo + 1, n0))])"

definition closest :: "rat \<Rightarrow> int \<Rightarrow> (int \<times> int) list \<Rightarrow> (int \<times> int) option" where
  "closest x k cs =
     (case cs of
        [] \<Rightarrow> None
      | [c] \<Rightarrow> Some c
      | (s, n) # (s', n') # _ \<Rightarrow>
          (let d = x - of_int s * pow10 (n - k); d' = of_int s' * pow10 (n' - k) - x
           in if d < d' then Some (s, n)
              else if d' < d then Some (s', n')
              else if even s then Some (s, n) else Some (s', n')))"

text \<open>
  The search for the smallest \<open>k\<close>, from \<open>k\<close> upwards over the next \<open>fuel\<close> lengths.
  Seventeen digits identify every binary64, so the search started at one digit with seventeen
  lengths to try finds its decimal; the equation for no fuel left only makes the function total.
\<close>

fun shortest :: "rat \<Rightarrow> int \<Rightarrow> int \<Rightarrow> nat \<Rightarrow> int \<times> int \<times> int" where
  "shortest x n0 k 0 = (\<lfloor>x / pow10 (n0 - k)\<rfloor>, n0, k)"
| "shortest x n0 k (Suc fuel) =
     (case closest x k (candidates x n0 k) of
        Some (s, n) \<Rightarrow> (s, n, k)
      | None \<Rightarrow> shortest x n0 (k + 1) fuel)"

definition format_decimal :: "int \<Rightarrow> int \<Rightarrow> int \<Rightarrow> string" where
  "format_decimal s n k =
     (let ds = digits_of s
      in if - 5 \<le> n \<and> n \<le> 21 then
           (if k \<le> n then ds @ replicate (nat (n - k)) CHR ''0''
            else if 0 < n then take (nat n) ds @ ''.'' @ drop (nat n) ds
            else ''0.'' @ replicate (nat (- n)) CHR ''0'' @ ds)
         else
           (let ex = (if n < 0 then ''-'' else ''+'') @ digits_of \<bar>n - 1\<bar>
            in if k = 1 then ds @ ''e'' @ ex
               else take 1 ds @ ''.'' @ drop 1 ds @ ''e'' @ ex))"

text \<open>\<^verbatim>\<open>String(x)\<close> for a number \<open>x\<close>.\<close>

fun Number_toString :: "double \<Rightarrow> string" where
  "Number_toString NaN = ''NaN''"
| "Number_toString (Infinity s) = (if s then ''-Infinity'' else ''Infinity'')"
| "Number_toString (Finite s m) =
     (if m = 0 then ''0''
      else (if s then ''-'' else '''') @
           (case shortest m (decimal_exponent m) 1 17 of (d, n, k) \<Rightarrow> format_decimal d n k))"

section \<open>The script engine on arithmetic source text\<close>

text \<open>
  \<^verbatim>\<open>evaluateExpression\<close> hands the checked string to the engine:
  \<^verbatim>\<open>new Function(`return ${cleanExpr}`)()\<close>. The call either throws (a \<^verbatim>\<open>SyntaxError\<close>
  when the body does not parse, or an error raised while it runs) or returns a value. On the
  characters that pass the check, a returned value is a number, \<^verbatim>\<open>undefined\<close>, or an
  object or string that \<^verbatim>\<open>isFinite\<close> converts to not-a-number (\<open>JOther\<close>).
\<close>

datatype jsvalue = JNumber double | JUndefined | JOther

datatype completion = Normal jsvalue | Throw

text \<open>
  The engine is modelled on the arithmetic the keypad writes: decimal and legacy octal numeric
  literals, the binary operators \<^verbatim>\<open>+ - * /\<close> and the unary signs. Source text with anything
  else in it (white space, parentheses, comments \<^verbatim>\<open>//\<close> and \<^verbatim>\<open>/*\<close>, the tokens \<^verbatim>\<open>++\<close>,
  \<^verbatim>\<open>--\<close> and \<^verbatim>\<open>**\<close>, a \<^verbatim>\<open>/\<close> that opens a regular expression literal) is left to
  \<open>host\<close>, an arbitrary function from source text to completions that every definition below
  takes as its first argument: what is proved holds whatever the engine does there. Inside the
  modelled arithmetic the engine is taken without resource limits: no source text is too long
  to compile.
\<close>

datatype token = TNum double | TPunct char | TInvalid

definition digit_val :: "char \<Rightarrow> int" where
  "digit_val c = int (of_char c) - 48"

definition digits_value :: "int \<Rightarrow> string \<Rightarrow> int" where
  "digits_value base ds = foldl (\<lambda>a c. base * a + digit_val c) 0 ds"

text \<open>A zero followed by octal digits only: in the non-strict code the \<^verbatim>\<open>Function\<close>
  constructor compiles, an integer written in base eight.\<close>

definition legacy_octal :: "string \<Rightarrow> bool" where
  "legacy_octal ds =
     (2 \<le> length ds \<and> hd ds = CHR ''0'' \<and> list_all (\<lambda>c. c \<in> set ''01234567'') ds)"

text \<open>
  The value of a maximal run of digits and dots when the run is one numeric literal:
  digits alone (decimal, or legacy octal), digits with a fraction, or a fraction alone; the
  mathematical value is rounded to the nearest number, as the engines do for literals of any
  length. A legacy octal integer takes no fraction. Any other run (a second dot, a dot alone)
  consists of several tokens that no production joins.
\<close>

definition numeric_literal :: "string \<Rightarrow> double option" where
  "numeric_literal r =
     (let i = takeWhile is_digit r; rest = dropWhile is_digit r
      in case rest of
           [] \<Rightarrow>
             if i = [] then None
             else if legacy_octal i then Some (round_double False (of_int (digits_value 8 i)))
             else Some (round_double False (of_int (digits_value 10 i)))
         | c # f \<Rightarrow>
             if \<not> list_all is_digit f \<or> (i = [] \<and> f = []) \<or> legacy_octal i then None
             else Some (round_double False
                    (of_int (digits_value 10 (i @ f)) / 10 ^ length f)))"

definition is_operand_char :: "char \<Rightarrow> bool" where
  "is_operand_char c = (is_digit c \<or> c = CHR ''.'')"

text \<open>
  The tokens of the source text, longest match first; \<open>operand\<close> tells whether the token before
  was an operand, where a \<^verbatim>\<open>/\<close> divides, and elsewhere opens a regular expression literal.
  \<open>None\<close>: the text is outside the modelled arithmetic.
\<close>

function tokenise :: "bool \<Rightarrow> string \<Rightarrow> token list option" where
  "tokenise operand [] = Some []"
| "tokenise operand (c # cs) =
     (if is_operand_char c then
        map_option
          (Cons (case numeric_literal (takeWhile is_operand_char (c # cs)) of
                   Some v \<Rightarrow> TNum v | None \<Rightarrow> TInvalid))
          (tokenise True (dropWhile is_operand_char cs))
      else if c = CHR ''+'' \<or> c = CHR ''-'' then
        (if cs \<noteq> [] \<and> hd cs = c then None
         else map_option (Cons (TPunct c)) (tokenise False cs))
      else if c = CHR ''*'' then
        (if cs \<noteq> [] \<and> hd cs = CHR ''*'' then None
         else map_option (Cons (TPunct c)) (tokenise False cs))
      else if c = CHR ''/'' then
        (if \<not> operand \<or> (cs \<noteq> [] \<and> (hd cs = CHR ''/'' \<or> hd cs = CHR ''*'')) then None
         else map_option (Cons (TPunct c)) (tokenise False cs))
      else None)"
  by pat_completeness auto
termination
  by (relation "measure (\<lambda>(operand, s). length s)")
     (auto simp: less_Suc_eq_le length_dropWhile_le)

datatype binop = Add | Sub | Mul | Div

datatype expr = Lit double | Pos expr | Neg expr | Bin binop expr expr

text \<open>\<^verbatim>\<open>UnaryExpression\<close>: a numeric literal under any number of signs.\<close>

fun parse_unary :: "token list \<Rightarrow> (expr \<times> token list) option" where
  "parse_unary (TNum v # ts) = Some (Lit v, ts)"
| "parse_unary (TPunct c # ts) =
     (if c = CHR ''+'' then map_option (apfst Pos) (parse_unary ts)
      else if c = CHR ''-'' then map_option (apfst Neg) (parse_unary ts)
      else None)"
| "parse_unary ts = None"

lemma parse_unary_shorter: "parse_unary ts = Some (e, ts') \<Longrightarrow> length ts' < length ts"
  by (induction ts arbitrary: e rule: parse_unary.induct) (auto split: if_splits)

text \<open>\<^verbatim>\<open>MultiplicativeExpression\<close>: the left operand \<open>l\<close> is read; every further
  \<^verbatim>\<open>*\<close> or \<^verbatim>\<open>/\<close> takes one unary expression and groups to the left.\<close>

function parse_multiplicative_rest :: "expr \<Rightarrow> token list \<Rightarrow> (expr \<times> token list) option" where
  "parse_multiplicative_rest l [] = Some (l, [])"
| "parse_multiplicative_rest l (t # ts) =
     (if t = TPunct CHR ''*'' \<or> t = TPunct CHR ''/'' then
        (case parse_unary ts of
           None \<Rightarrow> None
         | Some (r, ts') \<Rightarrow>
             parse_multiplicative_rest (Bin (if t = TPunct CHR ''*'' then Mul else Div) l r) ts')
      else Some (l, t # ts))"
  by pat_completeness auto
termination
  by (relation "measure (\<lambda>(l, ts). length ts)") (auto dest: parse_unary_shorter)

definition parse_multiplicative :: "token list \<Rightarrow> (expr \<times> token list) option" where
  "parse_multiplicative ts =
     (case parse_unary ts of
        None \<Rightarrow> None
      | Some (l, ts') \<Rightarrow> parse_multiplicative_rest l ts')"

lemma parse_multiplicative_rest_shorter:
  "parse_multiplicative_rest l ts = Some (e, ts') \<Longrightarrow> length ts' \<le> length ts"
proof (induction l ts arbitrary: e ts' rule: parse_multiplicative_rest.induct)
  case (1 l)
  then show ?case by simp
next
  case (2 l t ts)
  show ?case
  proof (cases "t = TPunct CHR ''*'' \<or> t = TPunct CHR ''/''")
    case True
    with "2.prems" obtain r ts1 where u: "parse_unary ts = Some (r, ts1)"
      and rest: "parse_multiplicative_rest
                   (Bin (if t = TPunct CHR ''*'' then Mul else Div) l r) ts1 = Some (e, ts')"
      by (auto split: option.splits)
    from "2.IH"[OF True u refl rest] parse_unary_shorter[OF u] show ?thesis by simp
  next
    case False
    with "2.prems" show ?thesis by auto
  qed
qed

lemma parse_multiplicative_shorter:
  "parse_multiplicative ts = Some (e, ts') \<Longrightarrow> length ts' < length ts"
  unfolding parse_multiplicative_def
  by (auto split: option.splits
           dest!: parse_unary_shorter parse_multiplicative_rest_shorter)

text \<open>\<^verbatim>\<open>AdditiveExpression\<close>: every further \<^verbatim>\<open>+\<close> or \<^verbatim>\<open>-\<close> takes one multiplicative
  expression and groups to the left.\<close>

function parse_additive_rest :: "expr \<Rightarrow> token list \<Rightarrow> (expr \<times> token list) option" where
  "parse_additive_rest l [] = Some (l, [])"
| "parse_additive_rest l (t # ts) =
     (if t = TPunct CHR ''+'' \<or> t = TPunct CHR ''-'' then
        (case parse_multiplicative ts of
           None \<Rightarrow> None
         | Some (r, ts') \<Rightarrow>
             parse_additive_rest (Bin (if t = TPunct CHR ''+'' then Add else Sub) l r) ts')
      else Some (l, t # ts))"
  by pat_completeness auto
termination
  by (relation "measure (\<lambda>(l, ts). length ts)") (auto dest: parse_multiplicative_shorter)

definition parse_additive :: "token list \<Rightarrow> (expr \<times> token list) option" where
  "parse_additive ts =
     (case parse_multiplicative ts of
        None \<Rightarrow> None
      | Some (l, ts') \<Rightarrow> parse_additive_rest l ts')"

fun apply_binop :: "binop \<Rightarrow> double \<Rightarrow> double \<Rightarrow> double" where
  "apply_binop Add x y = dadd x y"
| "apply_binop Sub x y = dsub x y"
| "apply_binop Mul x y = dmul x y"
| "apply_binop Div x y = ddiv x y"

fun eval :: "expr \<Rightarrow> double" where
  "eval (Lit v) = v"
| "eval (Pos e) = eval e"
| "eval (Neg e) = dneg (eval e)"
| "eval (Bin b l r) = apply_binop b (eval l) (eval r)"

text \<open>
  The call \<^verbatim>\<open>new Function(`return ${src}`)()\<close>. An empty body returns \<^verbatim>\<open>undefined\<close>;
  tokens that are not one expression are a \<^verbatim>\<open>SyntaxError\<close>.
\<close>

definition js_return :: "(string \<Rightarrow> completion) \<Rightarrow> string \<Rightarrow> completion" where
  "js_return host src =
     (case tokenise False src of
        None \<Rightarrow> host src
      | Some [] \<Rightarrow> Normal JUndefined
      | Some (t # ts) \<Rightarrow>
          (case parse_additive (t # ts) of
             Some (e, []) \<Rightarrow> Normal (JNumber (eval e))
           | _ \<Rightarrow> Throw))"

section \<open>The expression evaluator\<close>

text \<open>The two replacements of the multiplication and division glyphs, on one code unit each.\<close>

definition normalise_glyph :: "char \<Rightarrow> char" where
  "normalise_glyph c =
     (if of_char c = (215 :: nat) then CHR ''*''
      else if of_char c = (247 :: nat) then CHR ''/''
      else c)"

text \<open>The security check \<^verbatim>\<open>/^[\d+\-*/.\s()]+$/\<close>: at least one character, each in the class.\<close>

definition allowed_char :: "char \<Rightarrow> bool" where
  "allowed_char c = (is_digit c \<or> c \<in> set ''+-*/.()'' \<or> is_space c)"

definition whitelisted :: "string \<Rightarrow> bool" where
  "whitelisted s = (s \<noteq> [] \<and> list_all allowed_char s)"

text \<open>The conversion that \<^verbatim>\<open>isFinite\<close> and the multiplication apply to the returned value.\<close>

fun ToNumber :: "jsvalue \<Rightarrow> double" where
  "ToNumber (JNumber x) = x"
| "ToNumber JUndefined = NaN"
| "ToNumber JOther = NaN"

definition billion :: double where
  "billion = Finite False 1000000000"

definition evaluateExpression :: "(string \<Rightarrow> completion) \<Rightarrow> string \<Rightarrow> string" where
  "evaluateExpression host expr =
     (let cleanExpr = map normalise_glyph expr
      in if \<not> whitelisted cleanExpr then ''Error''
         else case js_return host cleanExpr of
                Throw \<Rightarrow> ''Error''
              | Normal res \<Rightarrow>
                  if \<not> is_finite (ToNumber res) then ''Error''
                  else let rounded = ddiv (Math_round (dmul (ToNumber res) billion)) billion
                       in Number_toString rounded)"

section \<open>The calculator screen\<close>

definition SECRET_CODE :: string where
  "SECRET_CODE = ''69/67''"

text \<open>The keys of the grid, each with its type.\<close>

definition BUTTON_LAYOUT :: "(string \<times> string) list" where
  "BUTTON_LAYOUT =
     [(''C'', ''function''), (''DEL'', ''function''), (''/'', ''operator''), (''*'', ''operator''),
      (''7'', ''number''), (''8'', ''number''), (''9'', ''number''), (''-'', ''operator''),
      (''4'', ''number''), (''5'', ''number''), (''6'', ''number''), (''+'', ''operator''),
      (''1'', ''number''), (''2'', ''number''), (''3'', ''number''), (''='', ''equals''),
      (''0'', ''number''), (''.'', ''number'')]"

text \<open>\<^verbatim>\<open>HistoryItem\<close> of \<^verbatim>\<open>src/client/lib/storage.ts\<close>.\<close>

record HistoryItem =
  item_id :: string
  item_expression :: string
  item_result :: string
  item_timestamp :: int

text \<open>
  The state of the screen: the four React state variables, the value stored under the history
  key of \<^verbatim>\<open>AsyncStorage\<close> (\<open>None\<close> while the key is absent) and the routes handed to
  \<^verbatim>\<open>navigation.navigate\<close> so far. A key press is one transaction on this state.
\<close>

record calculator =
  expression :: string
  result :: string
  history :: "HistoryItem list"
  justCalculated :: bool
  stored :: "HistoryItem list option"
  navigated :: "string list"

text \<open>
  What a key press reads from outside: the two readings of \<^verbatim>\<open>Date.now()\<close> and whether
  \<^verbatim>\<open>AsyncStorage.setItem\<close> succeeds.
\<close>

record environment =
  now_id :: int
  now_timestamp :: int
  setItem_ok :: bool

definition initial :: calculator where
  "initial =
     \<lparr>expression = ''0'', result = [], history = [], justCalculated = False,
      stored = None, navigated = []\<rparr>"

text \<open>\<^verbatim>\<open>saveHistory\<close>: a failed write is caught and logged, and the stored value stays.\<close>

definition saveHistory ::
  "bool \<Rightarrow> HistoryItem list \<Rightarrow> HistoryItem list option \<Rightarrow> HistoryItem list option" where
  "saveHistory ok h store = (if ok then Some h else store)"

text \<open>\<^verbatim>\<open>loadHistory\<close>: an absent key is the empty ledger.\<close>

definition loadHistory :: "HistoryItem list option \<Rightarrow> HistoryItem list" where
  "loadHistory store = (case store of None \<Rightarrow> [] | Some h \<Rightarrow> h)"

definition checkSecretCode :: "string \<Rightarrow> bool" where
  "checkSecretCode expr = (expr = SECRET_CODE)"

text \<open>\<^verbatim>\<open>Date.now().toString()\<close>: the decimal digits of an integer.\<close>

definition int_toString :: "int \<Rightarrow> string" where
  "int_toString n = (if n < 0 then ''-'' @ digits_of (- n) else digits_of n)"

text \<open>The tests \<^verbatim>\<open>/\d/.test(value)\<close>, \<^verbatim>\<open>/[+\-*/]/.test(value)\<close> and
  \<^verbatim>\<open>/[+\-*/]$/.test(prev)\<close>.\<close>

definition has_digit :: "string \<Rightarrow> bool" where
  "has_digit s = list_ex is_digit s"

definition has_operator :: "string \<Rightarrow> bool" where
  "has_operator s = list_ex is_operator s"

definition ends_with_operator :: "string \<Rightarrow> bool" where
  "ends_with_operator s = (s \<noteq> [] \<and> is_operator (last s))"

text \<open>The last element of \<^verbatim>\<open>prev.split(/[+\-*/]/)\<close>: what follows the last operator.\<close>

definition lastNumber :: "string \<Rightarrow> string" where
  "lastNumber prev = rev (takeWhile (\<lambda>c. \<not> is_operator c) (rev prev))"

text \<open>The function given to \<^verbatim>\<open>setExpression\<close> for a digit, an operator or the dot.\<close>

definition updateExpression :: "bool \<Rightarrow> string \<Rightarrow> string \<Rightarrow> string \<Rightarrow> string" where
  "updateExpression justCalc res value prev =
     (if justCalc \<and> has_digit value then value
      else if justCalc \<and> has_operator value then res @ value
      else if prev = ''0'' \<and> has_digit value then value
      else if ends_with_operator prev \<and> has_operator value then butlast prev @ value
      else if value = ''.'' \<and> CHR ''.'' \<in> set (lastNumber prev) then prev
      else prev @ value)"

definition handleButtonPress ::
  "(string \<Rightarrow> completion) \<Rightarrow> environment \<Rightarrow> string \<Rightarrow> calculator \<Rightarrow> calculator" where
  "handleButtonPress host env value st =
     (if value = ''C'' then
        st\<lparr>expression := ''0'', result := [], justCalculated := False, history := [],
           stored := saveHistory (setItem_ok env) [] (stored st)\<rparr>
      else if value = ''DEL'' then
        st\<lparr>expression := (if length (expression st) \<le> 1 then ''0'' else butlast (expression st)),
           justCalculated := False\<rparr>
      else if value = ''='' then
        (if checkSecretCode (expression st) then
           st\<lparr>expression := ''0'', result := [], navigated := navigated st @ [''Notes'']\<rparr>
         else
           (let calcResult = evaluateExpression host (expression st)
            in if calcResult \<noteq> ''Error'' then
                 (let newHistoryItem =
                        \<lparr>item_id = int_toString (now_id env), item_expression = expression st,
                         item_result = calcResult, item_timestamp = now_timestamp env\<rparr>;
                      updatedHistory = take 10 (newHistoryItem # history st)
                  in st\<lparr>history := updatedHistory,
                        stored := saveHistory (setItem_ok env) updatedHistory (stored st),
                        result := calcResult, justCalculated := True\<rparr>)
               else st\<lparr>result := calcResult, justCalculated := True\<rparr>))
      else
        st\<lparr>expression := updateExpression (justCalculated st) (result st) value (expression st),
           justCalculated := False\<rparr>)"

text \<open>A sequence of key presses, each with what it reads from outside.\<close>

fun presses ::
  "(string \<Rightarrow> completion) \<Rightarrow> (environment \<times> string) list \<Rightarrow> calculator \<Rightarrow> calculator" where
  "presses host [] st = st"
| "presses host ((env, value) # ks) st = presses host ks (handleButtonPress host env value st)"

section \<open>Predicates on buffers and fixed inputs\<close>

text \<open>Two operator characters side by side.\<close>

fun adjacent_operators :: "string \<Rightarrow> bool" where
  "adjacent_operators (c # d # cs) = ((is_operator c \<and> is_operator d) \<or> adjacent_operators (d # cs))"
| "adjacent_operators cs = False"

text \<open>No operator character at all.\<close>

definition operator_free :: "string \<Rightarrow> bool" where
  "operator_free s = list_all (\<lambda>c. \<not> is_operator c) s"

text \<open>The shape of a displayed result: operators stand alone and never at the end.\<close>

definition result_shape :: "string \<Rightarrow> bool" where
  "result_shape r = (\<not> adjacent_operators r \<and> (r = [] \<or> \<not> is_operator (last r)))"

text \<open>An engine that throws on everything it is asked, and an environment whose clock reads
  \<open>t\<close> and whose storage accepts every write: fixed inputs for the concrete runs below.\<close>

definition no_host :: "string \<Rightarrow> completion" where
  "no_host src = Throw"

definition clock :: "int \<Rightarrow> environment" where
  "clock t = \<lparr>now_id = t, now_timestamp = t, setItem_ok = True\<rparr>"


text \<open>
  The ledger as the specification describes it. An equals key is a successful evaluation when the
  buffer is not the secret code and evaluates to something other than \<^verbatim>\<open>Error\<close>; it
  creates one entry. \<open>recorded\<close> collects the entries of a sequence of key presses, the
  newest first and without any bound, starting from \<open>acc\<close> and starting afresh at every
  \<^verbatim>\<open>C\<close>.
\<close>

definition successful :: "(string \<Rightarrow> completion) \<Rightarrow> string \<Rightarrow> calculator \<Rightarrow> bool" where
  "successful host value st =
     (value = ''='' \<and> \<not> checkSecretCode (expression st) \<and>
      evaluateExpression host (expression st) \<noteq> ''Error'')"

definition entry :: "(string \<Rightarrow> completion) \<Rightarrow> environment \<Rightarrow> calculator \<Rightarrow> HistoryItem" where
  "entry host env st =
     \<lparr>item_id = int_toString (now_id env), item_expression = expression st,
      item_result = evaluateExpression host (expression st), item_timestamp = now_timestamp env\<rparr>"

fun recorded ::
  "(string \<Rightarrow> completion) \<Rightarrow> (environment \<times> string) list \<Rightarrow> calculator \<Rightarrow>
   HistoryItem list \<Rightarrow> HistoryItem list" where
  "recorded host [] st acc = acc"
| "recorded host ((env, value) # ks) st acc =
     recorded host ks (handleButtonPress host env value st)
       (if value = ''C'' then []
        else if successful host value st then entry host env st # acc
        else acc)"

section \<open>Two-level precedence\<close>

text \<open>
  The evaluation the specification asks for: multiplication and division before addition and
  subtraction, from left to right within each of the two levels. An expression is a first
  operand followed by operators with their operands. \<open>two_level\<close> reads it from the
  left with the first operand as the running product \<open>cur\<close>: a \<^verbatim>\<open>*\<close> or \<^verbatim>\<open>/\<close> is applied to
  the running product at once; a \<^verbatim>\<open>+\<close> or \<^verbatim>\<open>-\<close> waits, in \<open>two_level_rest\<close>, with the sum
  \<open>acc\<close> to its left until the product to its right is complete.
\<close>

definition is_multiplicative :: "char \<Rightarrow> bool" where
  "is_multiplicative c = (c = CHR ''*'' \<or> c = CHR ''/'')"

definition apply_operator :: "char \<Rightarrow> double \<Rightarrow> double \<Rightarrow> double" where
  "apply_operator c x y =
     (if c = CHR ''+'' then dadd x y
      else if c = CHR ''-'' then dsub x y
      else if c = CHR ''*'' then dmul x y
      else ddiv x y)"

fun two_level_rest :: "double \<Rightarrow> char \<Rightarrow> double \<Rightarrow> (char \<times> double) list \<Rightarrow> double" where
  "two_level_rest acc aop cur [] = apply_operator aop acc cur"
| "two_level_rest acc aop cur ((c, v) # r) =
     (if is_multiplicative c then two_level_rest acc aop (apply_operator c cur v) r
      else two_level_rest (apply_operator aop acc cur) c v r)"

fun two_level :: "double \<Rightarrow> (char \<times> double) list \<Rightarrow> double" where
  "two_level cur [] = cur"
| "two_level cur ((c, v) # r) =
     (if is_multiplicative c then two_level (apply_operator c cur v) r
      else two_level_rest cur c v r)"

text \<open>
  The text of an expression: an operand is a non-empty run of digits and dots that is one
  numeric literal, and a well-formed expression is an operand followed by operator characters,
  each with an operand.
\<close>

definition is_operand :: "string \<Rightarrow> bool" where
  "is_operand s = (s \<noteq> [] \<and> list_all is_operand_char s \<and> numeric_literal s \<noteq> None)"

definition literal_value :: "string \<Rightarrow> double" where
  "literal_value s = (case numeric_literal s of Some v \<Rightarrow> v | None \<Rightarrow> NaN)"

fun expression_text :: "string \<Rightarrow> (char \<times> string) list \<Rightarrow> string" where
  "expression_text s [] = s"
| "expression_text s ((c, s') # r) = s @ c # expression_text s' r"

definition well_formed :: "string \<Rightarrow> (char \<times> string) list \<Rightarrow> bool" where
  "well_formed s r = (is_operand s \<and> list_all (\<lambda>(c, s'). is_operator c \<and> is_operand s') r)"

definition operand_values :: "(char \<times> string) list \<Rightarrow> (char \<times> double) list" where
  "operand_values r = map (\<lambda>(c, s). (c, literal_value s)) r"

text \<open>What \<^verbatim>\<open>evaluateExpression\<close> returns for a computed number.\<close>

definition display :: "double \<Rightarrow> string" where
  "display x =
     (if is_finite x then Number_toString (ddiv (Math_round (dmul x billion)) billion)
      else ''Error'')"

text \<open>The tokens after the first operand.\<close>

definition tokens_of :: "(char \<times> double) list \<Rightarrow> token list" where
  "tokens_of r = concat (map (\<lambda>(c, v). [TPunct c, TNum v]) r)"

text \<open>The product that starts at \<open>x\<close>, and what follows it.\<close>

definition product_value :: "double \<Rightarrow> (char \<times> double) list \<Rightarrow> double" where
  "product_value x r =
     foldl (\<lambda>y (c, v). apply_operator c y v) x (takeWhile (\<lambda>(c, v). is_multiplicative c) r)"

definition after_product :: "(char \<times> double) list \<Rightarrow> (char \<times> double) list" where
  "after_product r = dropWhile (\<lambda>(c, v). is_multiplicative c) r"

section \<open>Kinds of error\<close>

text \<open>
  The two kinds of error of the specification. \<open>Malformed\<close>: the normalised string fails the
  character check, or the engine throws on it. \<open>NonFinite\<close>: the string passes the check and
  the engine returns a value that \<^verbatim>\<open>isFinite\<close> rejects.
\<close>

definition malformed :: "(string \<Rightarrow> completion) \<Rightarrow> string \<Rightarrow> bool" where
  "malformed host expr =
     (let cleanExpr = map normalise_glyph expr
      in \<not> whitelisted cleanExpr \<or> js_return host cleanExpr = Throw)"

definition non_finite :: "(string \<Rightarrow> completion) \<Rightarrow> string \<Rightarrow> bool" where
  "non_finite host expr =
     (let cleanExpr = map normalise_glyph expr
      in whitelisted cleanExpr \<and>
         (case js_return host cleanExpr of
            Throw \<Rightarrow> False
          | Normal res \<Rightarrow> \<not> is_finite (ToNumber res)))"

section \<open>The buffer invariant\<close>

text \<open>
  The invariant the specification states for the buffer: not empty, over the alphabet of the
  keypad, no operator in front and no two operators side by side.
\<close>

definition keypad_char :: "char \<Rightarrow> bool" where
  "keypad_char c = (is_digit c \<or> c = CHR ''.'' \<or> is_operator c)"

definition buffer_invariant :: "string \<Rightarrow> bool" where
  "buffer_invariant b =
     (b \<noteq> [] \<and> list_all keypad_char b \<and> \<not> is_operator (hd b) \<and> \<not> adjacent_operators b)"

text \<open>The values the keys of the grid send.\<close>

definition grid_key :: "string \<Rightarrow> bool" where
  "grid_key value = (value \<in> set (map fst BUTTON_LAYOUT))"

text \<open>No operator key of the sequence is pressed while the just-calculated flag is set.\<close>

fun never_chains ::
  "(string \<Rightarrow> completion) \<Rightarrow> (environment \<times> string) list \<Rightarrow> calculator \<Rightarrow> bool" where
  "never_chains host [] st = True"
| "never_chains host ((env, value) # ks) st =
     (\<not> (justCalculated st \<and> has_operator value) \<and>
      never_chains host ks (handleButtonPress host env value st))"

text \<open>What every reachable state satisfies.\<close>

definition sound_state :: "calculator \<Rightarrow> bool" where
  "sound_state st =
     (expression st \<noteq> [] \<and> \<not> adjacent_operators (expression st) \<and> result_shape (result st))"

section \<open>Exact arithmetic on small integers\<close>

lemma ilog_bounds:
  "2 \<le> b \<Longrightarrow> 1 \<le> n \<Longrightarrow> 0 \<le> ilog b n \<and> b ^ nat (ilog b n) \<le> n \<and> n < b ^ nat (ilog b n + 1)"
proof (induction b n rule: ilog.induct)
  case (1 b n)
  show ?case
  proof (cases "n < b")
    case True
    then have "ilog b n = 0" by (subst ilog.simps) simp
    with True "1.prems" show ?thesis by simp
  next
    case False
    with "1.prems" have "0 < n div b"
      by (simp add: pos_imp_zdiv_pos_iff)
    then have d: "1 \<le> n div b" by simp
    from False "1.prems" have nb: "\<not> (b < 2 \<or> n < b)" by simp
    from "1.IH"[OF nb "1.prems"(1) d]
    have ih: "0 \<le> ilog b (n div b)" "b ^ nat (ilog b (n div b)) \<le> n div b"
      "n div b < b ^ nat (ilog b (n div b) + 1)" by auto
    have eq: "ilog b n = 1 + ilog b (n div b)" using nb by (subst ilog.simps) simp
    have bpos: "0 < b" using "1.prems" by simp
    have lo: "b ^ nat (ilog b n) \<le> n"
    proof -
      have "b ^ nat (ilog b n) = b * b ^ nat (ilog b (n div b))"
        using ih(1) eq by (simp add: nat_add_distrib)
      also have "\<dots> \<le> b * (n div b)" using ih(2) bpos by simp
      also have "\<dots> \<le> n"
      proof -
        have "n = b * (n div b) + n mod b" by simp
        moreover have "0 \<le> n mod b" using bpos by simp
        ultimately show ?thesis by linarith
      qed
      finally show ?thesis .
    qed
    have hi: "n < b ^ nat (ilog b n + 1)"
    proof -
      have "n div b + 1 \<le> b ^ nat (ilog b (n div b) + 1)" using ih(3) by simp
      then have "b * (n div b + 1) \<le> b * b ^ nat (ilog b (n div b) + 1)"
        using bpos by simp
      moreover have "n < b * (n div b + 1)"
      proof -
        have "n = b * (n div b) + n mod b" by simp
        moreover have "n mod b < b" using bpos by simp
        ultimately have "n < b * (n div b) + b" by linarith
        then show ?thesis by (simp add: algebra_simps)
      qed
      moreover have "b ^ nat (ilog b n + 1) = b * b ^ nat (ilog b (n div b) + 1)"
        using ih(1) eq by (simp add: nat_add_distrib)
      ultimately show ?thesis by simp
    qed
    from ih(1) eq lo hi show ?thesis by simp
  qed
qed


text \<open>The two exponent functions meet their descriptions on every positive rational.\<close>

lemma floor_log_bounds:
  fixes pw :: "int \<Rightarrow> rat" and a :: rat
  assumes b: "2 \<le> b" and a: "0 < a"
    and pw: "\<And>e. pw e = (if 0 \<le> e then of_int b ^ nat e else 1 / of_int b ^ nat (- e))"
    and d: "d = (if 1 \<le> a then ilog b \<lfloor>a\<rfloor> else - ilog b \<lfloor>1 / a\<rfloor>)"
    and r: "r = (if pw d \<le> a then d else d - 1)"
  shows "pw r \<le> a \<and> a < pw (r + 1)"
proof -
  have bpos: "(0::rat) < of_int b" using b by simp
  have pw_pos: "\<And>e. 0 < pw e" using bpos by (simp add: pw)
  have pw_Suc: "pw (e + 1) = of_int b * pw e" for e
  proof (cases "0 \<le> e")
    case True
    then show ?thesis by (simp add: pw nat_add_distrib)
  next
    case False
    then have "nat (- e) = Suc (nat (- (e + 1)))" by simp
    then have "(of_int b :: rat) ^ nat (- e) = of_int b * of_int b ^ nat (- (e + 1))" by simp
    with False bpos show ?thesis by (cases "e = - 1") (simp_all add: pw)
  qed
  have pw_neg: "pw (- e) = 1 / of_int b ^ nat e" if "0 \<le> e" for e
    using that by (cases "e = 0") (simp_all add: pw)
  have between: "of_int b ^ nat (ilog b \<lfloor>x\<rfloor>) \<le> x \<and> x < of_int b ^ nat (ilog b \<lfloor>x\<rfloor> + 1) \<and>
      0 \<le> ilog b \<lfloor>x\<rfloor>" if "1 \<le> x" for x :: rat
  proof -
    from that have f: "1 \<le> \<lfloor>x\<rfloor>" by simp
    from ilog_bounds[OF b f] have i: "0 \<le> ilog b \<lfloor>x\<rfloor>" "b ^ nat (ilog b \<lfloor>x\<rfloor>) \<le> \<lfloor>x\<rfloor>"
      "\<lfloor>x\<rfloor> < b ^ nat (ilog b \<lfloor>x\<rfloor> + 1)" by auto
    have "(of_int (b ^ nat (ilog b \<lfloor>x\<rfloor>)) :: rat) \<le> of_int \<lfloor>x\<rfloor>"
      using i(2) by (simp only: of_int_le_iff)
    also have "\<dots> \<le> x" by simp
    finally have lo: "of_int b ^ nat (ilog b \<lfloor>x\<rfloor>) \<le> x" by simp
    have "\<lfloor>x\<rfloor> + 1 \<le> b ^ nat (ilog b \<lfloor>x\<rfloor> + 1)" using i(3) by simp
    then have "(of_int (\<lfloor>x\<rfloor> + 1) :: rat) \<le> of_int (b ^ nat (ilog b \<lfloor>x\<rfloor> + 1))"
      by (simp only: of_int_le_iff)
    moreover have "x < of_int (\<lfloor>x\<rfloor> + 1)" by linarith
    ultimately have "x < of_int b ^ nat (ilog b \<lfloor>x\<rfloor> + 1)" by simp
    with lo i(1) show ?thesis by simp
  qed
  show ?thesis
  proof (cases "1 \<le> a")
    case True
    from between[OF True] d True have "pw d \<le> a" "a < pw (d + 1)" "0 \<le> d"
      by (simp_all add: pw)
    then show ?thesis using r by simp
  next
    case False
    define L where "L = ilog b \<lfloor>1 / a\<rfloor>"
    have "1 \<le> 1 / a" using False a by simp
    from between[OF this] have L: "of_int b ^ nat L \<le> 1 / a" "1 / a < of_int b ^ nat (L + 1)" "0 \<le> L"
      by (simp_all add: L_def)
    have dL: "d = - L" using d False by (simp add: L_def)
    have a_le: "a \<le> pw (- L)"
    proof -
      have "a = 1 / (1 / a)" by simp
      also have "\<dots> \<le> 1 / of_int b ^ nat L" using L(1) bpos by (intro frac_le) simp_all
      finally show ?thesis using L(3) by (simp add: pw_neg)
    qed
    have a_gt: "pw (- L - 1) < a"
    proof -
      have "- L - 1 = - (L + 1)" by simp
      then have "pw (- L - 1) = 1 / of_int b ^ nat (L + 1)" using pw_neg[of "L + 1"] L(3) by simp
      also have "\<dots> < 1 / (1 / a)" using L(2) a by (intro frac_less2) simp_all
      finally show ?thesis by simp
    qed
    show ?thesis
    proof (cases "pw (- L) \<le> a")
      case True
      with a_le have "a = pw (- L)" by simp
      moreover have "pw (- L) < of_int b * pw (- L)" using pw_pos[of "- L"] b by simp
      ultimately show ?thesis using r dL True pw_Suc[of "- L"] by simp
    next
      case no: False
      then show ?thesis using r dL a_gt by simp
    qed
  qed
qed

lemma floor_log2_bounds:
  assumes "0 < a"
  shows "pow2 (floor_log2 a) \<le> a \<and> a < pow2 (floor_log2 a + 1)"
proof (rule floor_log_bounds[where b = 2 and pw = pow2])
  show "(2::int) \<le> 2" by simp
  show "0 < a" by (rule assms)
  show "pow2 e = (if 0 \<le> e then of_int 2 ^ nat e else 1 / of_int 2 ^ nat (- e))" for e
    by (simp add: pow2_def)
  show "(if 1 \<le> a then ilog 2 \<lfloor>a\<rfloor> else - ilog 2 \<lfloor>1 / a\<rfloor>) =
      (if 1 \<le> a then ilog 2 \<lfloor>a\<rfloor> else - ilog 2 \<lfloor>1 / a\<rfloor>)" by (rule refl)
  show "floor_log2 a =
      (if pow2 (if 1 \<le> a then ilog 2 \<lfloor>a\<rfloor> else - ilog 2 \<lfloor>1 / a\<rfloor>) \<le> a
       then if 1 \<le> a then ilog 2 \<lfloor>a\<rfloor> else - ilog 2 \<lfloor>1 / a\<rfloor>
       else (if 1 \<le> a then ilog 2 \<lfloor>a\<rfloor> else - ilog 2 \<lfloor>1 / a\<rfloor>) - 1)"
    by (simp only: floor_log2_def Let_def)
qed

lemma decimal_exponent_bounds:
  assumes "0 < a"
  shows "pow10 (decimal_exponent a - 1) \<le> a \<and> a < pow10 (decimal_exponent a)"
proof -
  have "pow10 (decimal_exponent a - 1) \<le> a \<and> a < pow10 (decimal_exponent a - 1 + 1)"
  proof (rule floor_log_bounds[where b = 10 and pw = pow10])
    show "(2::int) \<le> 10" by simp
    show "0 < a" by (rule assms)
    show "pow10 e = (if 0 \<le> e then of_int 10 ^ nat e else 1 / of_int 10 ^ nat (- e))" for e
      by (simp add: pow10_def)
    show "(if 1 \<le> a then ilog 10 \<lfloor>a\<rfloor> else - ilog 10 \<lfloor>1 / a\<rfloor>) =
        (if 1 \<le> a then ilog 10 \<lfloor>a\<rfloor> else - ilog 10 \<lfloor>1 / a\<rfloor>)" by (rule refl)
    show "decimal_exponent a - 1 =
        (if pow10 (if 1 \<le> a then ilog 10 \<lfloor>a\<rfloor> else - ilog 10 \<lfloor>1 / a\<rfloor>) \<le> a
         then if 1 \<le> a then ilog 10 \<lfloor>a\<rfloor> else - ilog 10 \<lfloor>1 / a\<rfloor>
         else (if 1 \<le> a then ilog 10 \<lfloor>a\<rfloor> else - ilog 10 \<lfloor>1 / a\<rfloor>) - 1)"
      unfolding decimal_exponent_def Let_def by (simp split: if_splits)
  qed
  then show ?thesis by simp
qed

lemma floor_log2_of_int: "1 \<le> n \<Longrightarrow> floor_log2 (of_int n) = ilog 2 n"
proof -
  assume n: "1 \<le> n"
  from ilog_bounds[of 2 n] n have b: "0 \<le> ilog 2 n" "2 ^ nat (ilog 2 n) \<le> n" by auto
  have "(of_int (2 ^ nat (ilog 2 n)) :: rat) \<le> of_int n" using b(2) by (simp only: of_int_le_iff)
  then have "pow2 (ilog 2 n) \<le> of_int n" using b(1) by (simp add: pow2_def)
  with n show ?thesis by (simp add: floor_log2_def)
qed

lemma round_half_even_of_int: "round_half_even (of_int k) = k"
  by (simp add: round_half_even_def)

lemma round_double_of_int:
  assumes "1 \<le> n" "n < 2 ^ 53"
  shows "round_double s (of_int n) = Finite s (of_int n)"
proof -
  from ilog_bounds[of 2 n] assms have b: "0 \<le> ilog 2 n" "2 ^ nat (ilog 2 n) \<le> n" by auto
  have "(2::int) ^ nat (ilog 2 n) < 2 ^ 53" using b(2) assms(2) by linarith
  then have "nat (ilog 2 n) < 53" by (intro power_less_imp_less_exp[of "2::int"]) simp_all
  then have le: "ilog 2 n \<le> 52" using b(1) by linarith
  define j where "j = nat (52 - ilog 2 n)"
  have q: "max (ilog 2 n - 52) (- 1074) = - int j" using le b(1) by (simp add: j_def)
  have p: "pow2 (- int j) = 1 / 2 ^ j" by (cases "j = 0") (simp_all add: pow2_def)
  have d: "(of_int n :: rat) / pow2 (- int j) = of_int (n * 2 ^ j)" by (simp add: p)
  have v: "of_int (round_half_even (of_int n / pow2 (- int j))) * pow2 (- int j) = (of_int n :: rat)"
    by (simp only: d round_half_even_of_int) (simp add: p)
  have "(of_int n :: rat) < of_int (2 ^ 1024)"
    using assms(2) by (simp only: of_int_less_iff) (rule less_trans[of _ "2 ^ 53"], simp_all)
  then have nov: "\<not> pow2 1024 \<le> (of_int n :: rat)" by (simp add: pow2_def)
  have nz: "(of_int n :: rat) \<noteq> 0" using assms(1) by simp
  show ?thesis
    unfolding round_double_def Let_def floor_log2_of_int[OF assms(1)] q v
    using nz nov by simp
qed

lemma round_double_numeral:
  "numeral k < (9007199254740992 :: int) \<Longrightarrow> round_double s (numeral k) = Finite s (numeral k)"
  using round_double_of_int[of "numeral k" s] by simp

lemma shortest_numeral:
  "shortest x n0 k (numeral f) =
     (case closest x k (candidates x n0 k) of
        Some (s, n) \<Rightarrow> (s, n, k)
      | None \<Rightarrow> shortest x n0 (k + 1) (pred_numeral f))"
  by (simp add: numeral_eq_Suc)

lemma round_double_one: "round_double s 1 = Finite s 1"
  using round_double_of_int[of 1 s] by simp

lemma round_double_zero: "round_double s 0 = Finite s 0"
  by (simp add: round_double_def)

lemma floor_rat_numeral: "\<lfloor>(numeral a :: rat) / numeral b\<rfloor> = numeral a div numeral b"
  using floor_divide_of_int_eq[of "numeral a" "numeral b", where ?'a = rat] by simp

lemma floor_rat_neg_numeral:
  "\<lfloor>- ((numeral a :: rat) / numeral b)\<rfloor> = - numeral a div numeral b"
  using floor_divide_of_int_eq[of "- numeral a" "numeral b", where ?'a = rat] by simp

lemma floor_rat_one_numeral: "\<lfloor>(1 :: rat) / numeral b\<rfloor> = 1 div numeral b"
  using floor_divide_of_int_eq[of 1 "numeral b", where ?'a = rat] by simp

lemmas engine_eval =
  evaluateExpression_def whitelisted_def allowed_char_def is_digit_def is_space_def
  normalise_glyph_def js_return_def is_operand_char_def numeric_literal_def legacy_octal_def
  digits_value_def digit_val_def parse_additive_def parse_multiplicative_def billion_def
  signed_def dsub_def round_double_numeral round_double_zero round_double_one
  floor_rat_numeral
  floor_rat_neg_numeral floor_rat_one_numeral Let_def

lemmas print_eval =
  shortest_numeral candidates_def closest_def decimal_exponent_def pow10_def ilog.simps
  format_decimal_def digits_of.simps digit_char_def

text \<open>
  Two evaluations whose values are not integers, computed with the rounding as it is defined:
  the sum whose binary64 value prints as \<^verbatim>\<open>0.30000000000000004\<close>, and the near miss of the
  secret code.
\<close>

lemmas float_eval = round_double_def floor_log2_def pow2_def round_half_even_def

lemma evaluateExpression_tenths: "evaluateExpression host ''0.1+0.2'' = ''0.3''"
  by (simp add: float_eval engine_eval print_eval)

lemma evaluateExpression_near_miss: "evaluateExpression host ''69/68'' = ''1.014705882''"
  by (simp add: float_eval engine_eval print_eval)

section \<open>The shape of printed numbers\<close>

lemma adjacent_operators_append:
  "adjacent_operators (xs @ ys) \<longleftrightarrow>
     adjacent_operators xs \<or> adjacent_operators ys \<or>
     (xs \<noteq> [] \<and> ys \<noteq> [] \<and> is_operator (last xs) \<and> is_operator (hd ys))"
proof (induction xs)
  case Nil
  show ?case by simp
next
  case (Cons x xs)
  note IH = Cons.IH
  show ?case
  proof (cases xs)
    case Nil
    then show ?thesis by (cases ys) auto
  next
    case (Cons d cs)
    with IH show ?thesis by auto
  qed
qed

lemma operator_free_not_adjacent: "operator_free s \<Longrightarrow> \<not> adjacent_operators s"
  by (induction s rule: adjacent_operators.induct) (auto simp: operator_free_def)

lemma operator_free_append [simp]:
  "operator_free (xs @ ys) \<longleftrightarrow> operator_free xs \<and> operator_free ys"
  by (simp add: operator_free_def)

lemma operator_free_Cons [simp]:
  "operator_free (c # cs) \<longleftrightarrow> \<not> is_operator c \<and> operator_free cs"
  by (simp add: operator_free_def)

lemma operator_free_Nil [simp]: "operator_free []"
  by (simp add: operator_free_def)

lemma operator_free_last: "operator_free s \<Longrightarrow> s \<noteq> [] \<Longrightarrow> \<not> is_operator (last s)"
  by (simp add: operator_free_def list_all_iff)

lemma operator_free_hd: "operator_free s \<Longrightarrow> s \<noteq> [] \<Longrightarrow> \<not> is_operator (hd s)"
  by (simp add: operator_free_def list_all_iff)

lemma is_digit_digit_char: "is_digit (digit_char d)"
  by (simp add: digit_char_def is_digit_def)

lemma digits_of_digits: "digits_of n \<noteq> [] \<and> list_all is_digit (digits_of n)"
proof (induction n rule: digits_of.induct)
  case (1 n)
  show ?case
  proof (cases "n < 10")
    case True
    then have "digits_of n = [digit_char n]" by (subst digits_of.simps) simp
    then show ?thesis by (simp add: is_digit_digit_char)
  next
    case False
    then have "digits_of n = digits_of (n div 10) @ [digit_char (n mod 10)]"
      by (subst digits_of.simps) simp
    with 1[OF False] show ?thesis by (simp add: is_digit_digit_char)
  qed
qed

lemma digit_not_operator: "is_digit c \<Longrightarrow> \<not> is_operator c"
  by (auto simp: is_digit_def is_operator_def)

lemma digits_operator_free: "list_all is_digit s \<Longrightarrow> operator_free s"
  by (auto simp: operator_free_def list_all_iff digit_not_operator)

lemma digits_of_operator_free [simp]: "operator_free (digits_of n)"
  using digits_of_digits digits_operator_free by blast

lemma digits_of_nonempty [simp]: "digits_of n \<noteq> []"
  using digits_of_digits by blast

lemma operator_free_shape: "operator_free s \<Longrightarrow> result_shape s"
  by (auto simp: result_shape_def operator_free_not_adjacent operator_free_last)

lemma shape_sign:
  assumes "operator_free a" "operator_free b" "b \<noteq> []"
  shows "result_shape (a @ c # b)"
proof -
  have nb: "\<not> adjacent_operators b" "\<not> is_operator (hd b)" "\<not> is_operator (last b)"
    using assms by (simp_all add: operator_free_not_adjacent operator_free_hd operator_free_last)
  have "\<not> adjacent_operators ([c] @ b)"
    unfolding adjacent_operators_append using nb by simp
  then have cb: "\<not> adjacent_operators (c # b)" by simp
  have na: "\<not> adjacent_operators a" "a \<noteq> [] \<Longrightarrow> \<not> is_operator (last a)"
    using assms by (simp_all add: operator_free_not_adjacent operator_free_last)
  have "\<not> adjacent_operators (a @ c # b)"
    unfolding adjacent_operators_append using cb na by auto
  moreover have "\<not> is_operator (last (a @ c # b))" using nb assms by simp
  ultimately show ?thesis by (simp add: result_shape_def)
qed

lemma shape_minus:
  assumes "result_shape r" "r \<noteq> []" "\<not> is_operator (hd r)"
  shows "result_shape (CHR ''-'' # r)"
proof -
  have "\<not> adjacent_operators ([CHR ''-''] @ r)"
    unfolding adjacent_operators_append using assms by (simp add: result_shape_def)
  with assms show ?thesis by (simp add: result_shape_def)
qed

lemma format_decimal_shape:
  "result_shape (format_decimal d n k) \<and> format_decimal d n k \<noteq> [] \<and>
   is_digit (hd (format_decimal d n k))"
proof -
  define ds where "ds = digits_of d"
  have ds: "ds \<noteq> []" "list_all is_digit ds" "operator_free ds"
    using digits_of_digits[of d] by (simp_all add: ds_def)
  have dot: "\<not> is_operator CHR ''.''" "\<not> is_operator CHR ''e''" "\<not> is_operator CHR ''0''"
    "is_digit CHR ''0''"
    by (simp_all add: is_operator_def is_digit_def)
  have hd_ds: "is_digit (hd ds)" using ds by (cases ds) simp_all
  have tk: "\<And>j. operator_free (take j ds)" "\<And>j. operator_free (drop j ds)"
    using ds(3) by (auto simp: operator_free_def list_all_iff dest: in_set_takeD in_set_dropD)
  have hd_take: "\<And>j. 0 < j \<Longrightarrow> take j ds \<noteq> [] \<and> hd (take j ds) = hd ds"
    using ds(1) by (cases ds) (auto simp: take_Cons')
  have rep: "\<And>j. operator_free (replicate j CHR ''0'')"
    by (simp add: operator_free_def list_all_iff dot)
  show ?thesis
  proof (cases "- 5 \<le> n \<and> n \<le> 21")
    case True
    then have eq: "format_decimal d n k =
      (if k \<le> n then ds @ replicate (nat (n - k)) CHR ''0''
       else if 0 < n then take (nat n) ds @ ''.'' @ drop (nat n) ds
       else ''0.'' @ replicate (nat (- n)) CHR ''0'' @ ds)"
      by (simp add: format_decimal_def ds_def Let_def)
    have "operator_free (format_decimal d n k)"
      unfolding eq using ds tk rep dot by simp
    moreover have "format_decimal d n k \<noteq> []" unfolding eq using ds by simp
    moreover have "is_digit (hd (format_decimal d n k))"
      unfolding eq using ds hd_ds hd_take[of "nat n"] dot by (auto simp: hd_append)
    ultimately show ?thesis by (simp add: operator_free_shape)
  next
    case False
    define sg where "sg = (if n < 0 then CHR ''-'' else CHR ''+'')"
    define mant where "mant = (if k = 1 then ds @ ''e'' else take 1 ds @ ''.'' @ drop 1 ds @ ''e'')"
    have c: "(- 5 \<le> n \<and> n \<le> 21) = False" using False by simp
    have eq: "format_decimal d n k = mant @ sg # digits_of \<bar>n - 1\<bar>"
      unfolding format_decimal_def Let_def c by (simp add: ds_def mant_def sg_def)
    have m: "operator_free mant" "mant \<noteq> []" "hd mant = hd ds"
      using ds tk dot hd_take[of 1] by (auto simp: mant_def hd_append)
    have "result_shape (format_decimal d n k)"
      unfolding eq by (rule shape_sign) (use m in simp_all)
    moreover have "hd (format_decimal d n k) = hd ds" unfolding eq using m by (simp add: hd_append)
    ultimately show ?thesis using hd_ds eq by simp
  qed
qed

lemma Number_toString_shape: "result_shape (Number_toString x) \<and> Number_toString x \<noteq> []"
proof (cases x)
  case NaN
  then show ?thesis
    by (simp add: result_shape_def is_operator_def)
next
  case (Infinity s)
  then show ?thesis
    by (simp add: result_shape_def is_operator_def)
next
  case (Finite s m)
  show ?thesis
  proof (cases "m = 0")
    case True
    with Finite show ?thesis by (simp add: result_shape_def is_operator_def)
  next
    case False
    obtain d n k where sh: "shortest m (decimal_exponent m) 1 17 = (d, n, k)"
      by (cases "shortest m (decimal_exponent m) 1 17") auto
    note f = format_decimal_shape[of d n k]
    have nop: "\<not> is_operator (hd (format_decimal d n k))"
      using f digit_not_operator by blast
    show ?thesis
    proof (cases s)
      case True
      with Finite False sh have "Number_toString x = CHR ''-'' # format_decimal d n k" by simp
      with shape_minus[of "format_decimal d n k"] f nop show ?thesis by simp
    next
      case no: False
      with Finite False sh have "Number_toString x = format_decimal d n k" by simp
      with f show ?thesis by simp
    qed
  qed
qed

lemma Number_toString_not_Error: "Number_toString x \<noteq> ''Error''"
proof (cases x)
  case NaN
  then show ?thesis by simp
next
  case (Infinity s)
  then show ?thesis by simp
next
  case (Finite s m)
  obtain d n k where sh: "shortest m (decimal_exponent m) 1 17 = (d, n, k)"
    by (cases "shortest m (decimal_exponent m) 1 17") auto
  have "is_digit (hd (format_decimal d n k))" "format_decimal d n k \<noteq> []"
    using format_decimal_shape[of d n k] by simp_all
  then have "hd (format_decimal d n k) \<noteq> CHR ''E''" by (auto simp: is_digit_def)
  then have "format_decimal d n k \<noteq> ''Error''" by auto
  with Finite sh show ?thesis by (cases "format_decimal d n k") auto
qed

section \<open>The secret code, the error path, clearing and the decimal point\<close>

lemma evaluateExpression_shape:
  "result_shape (evaluateExpression host e) \<and> evaluateExpression host e \<noteq> []"
proof -
  have err: "result_shape ''Error''" by (simp add: result_shape_def is_operator_def)
  show ?thesis
    unfolding evaluateExpression_def Let_def
    using err Number_toString_shape
    by (auto split: completion.splits)
qed

lemmas press_simps = handleButtonPress_def checkSecretCode_def SECRET_CODE_def

text \<open>
  C1. \<^verbatim>\<open>checkSecretCode\<close> holds of a buffer exactly when the buffer is the literal
  \<^verbatim>\<open>69/67\<close>. On any other buffer (\<^verbatim>\<open>69/68\<close>, the prefix \<^verbatim>\<open>696\<close>) the equals key takes the
  evaluation path: the buffer stays, the result is what \<^verbatim>\<open>evaluateExpression\<close> returns for
  it, the just-calculated flag is set and nothing is navigated to.
\<close>

theorem checkSecretCode_exact:
  "(checkSecretCode b \<longleftrightarrow> b = ''69/67'') \<and>
   (b \<noteq> ''69/67'' \<longrightarrow>
      expression (handleButtonPress host env ''='' (st\<lparr>expression := b\<rparr>)) = b \<and>
      result (handleButtonPress host env ''='' (st\<lparr>expression := b\<rparr>)) = evaluateExpression host b \<and>
      justCalculated (handleButtonPress host env ''='' (st\<lparr>expression := b\<rparr>)) \<and>
      navigated (handleButtonPress host env ''='' (st\<lparr>expression := b\<rparr>)) = navigated st)"
  by (simp add: press_simps Let_def)

text \<open>The literal, near misses and prefixes of it, and the equals key on two of them.\<close>

theorem checkSecretCode_exact_witness:
  "checkSecretCode ''69/67'' \<and> \<not> checkSecretCode ''69/68'' \<and> \<not> checkSecretCode ''696'' \<and>
   \<not> checkSecretCode ''69/6'' \<and> \<not> checkSecretCode ''069/67'' \<and> \<not> checkSecretCode ''69/670'' \<and>
   handleButtonPress no_host (clock 1) ''='' (initial\<lparr>expression := ''69/68''\<rparr>) =
     \<lparr>expression = ''69/68'', result = ''1.014705882'',
      history = [\<lparr>item_id = ''1'', item_expression = ''69/68'', item_result = ''1.014705882'',
                  item_timestamp = 1\<rparr>],
      justCalculated = True,
      stored = Some [\<lparr>item_id = ''1'', item_expression = ''69/68'', item_result = ''1.014705882'',
                       item_timestamp = 1\<rparr>],
      navigated = []\<rparr> \<and>
   navigated (handleButtonPress no_host (clock 1) ''='' (initial\<lparr>expression := ''696''\<rparr>)) = [] \<and>
   result (handleButtonPress no_host (clock 1) ''='' (initial\<lparr>expression := ''696''\<rparr>)) = ''696''"
proof -
  have v: "evaluateExpression no_host ''696'' = ''696''"
    by (simp add: engine_eval print_eval)
  have w: "handleButtonPress no_host (clock 1) ''='' (initial\<lparr>expression := ''69/68''\<rparr>) =
     \<lparr>expression = ''69/68'', result = ''1.014705882'',
      history = [\<lparr>item_id = ''1'', item_expression = ''69/68'', item_result = ''1.014705882'',
                  item_timestamp = 1\<rparr>],
      justCalculated = True,
      stored = Some [\<lparr>item_id = ''1'', item_expression = ''69/68'', item_result = ''1.014705882'',
                       item_timestamp = 1\<rparr>],
      navigated = []\<rparr>"
    by (simp add: press_simps initial_def clock_def saveHistory_def int_toString_def
          digits_of.simps digit_char_def evaluateExpression_near_miss Let_def)
  have n: "navigated initial = []" by (simp add: initial_def)
  show ?thesis
    using checkSecretCode_exact[of "''69/68''" no_host "clock 1" initial]
      checkSecretCode_exact[of "''696''" no_host "clock 1" initial]
      checkSecretCode_exact[of "''69/67''"] checkSecretCode_exact[of "''69/6''"]
      checkSecretCode_exact[of "''069/67''"] checkSecretCode_exact[of "''69/670''"]
    by (simp add: v w n)
qed

text \<open>
  C2. The equals key on the buffer \<^verbatim>\<open>69/67\<close> resets the buffer to \<^verbatim>\<open>0\<close>, clears the
  displayed result and navigates to the notes; the ledger, its stored copy and the flag stay as
  they were. No error is shown, and the new state holds nothing an evaluation could have
  produced: the displayed result is empty, which \<^verbatim>\<open>evaluateExpression\<close> never returns, and
  the state is the same whatever the engine and the environment are.
\<close>

theorem secret_trigger:
  "expression st = ''69/67'' \<Longrightarrow>
     (let st' = handleButtonPress host env ''='' st
      in st' = st\<lparr>expression := ''0'', result := [], navigated := navigated st @ [''Notes'']\<rparr> \<and>
         expression st' = ''0'' \<and> result st' = [] \<and>
         history st' = history st \<and> stored st' = stored st \<and>
         justCalculated st' = justCalculated st \<and>
         result st' \<noteq> ''Error'' \<and>
         result st' \<noteq> evaluateExpression host' e \<and>
         handleButtonPress host' env' ''='' st = st')"
  using evaluateExpression_shape[of host' e] by (auto simp: press_simps Let_def)

text \<open>The secret code typed into the initial state.\<close>

theorem secret_trigger_witness:
  "expression (initial\<lparr>expression := ''69/67''\<rparr>) = ''69/67'' \<and>
   handleButtonPress no_host (clock 1) ''='' (initial\<lparr>expression := ''69/67''\<rparr>) =
     initial\<lparr>navigated := [''Notes'']\<rparr>"
  using secret_trigger[of "initial\<lparr>expression := ''69/67''\<rparr>" no_host "clock 1" no_host "[]" "clock 1"]
  by (simp add: initial_def Let_def)

text \<open>
  C5. An equals key whose evaluation returns \<^verbatim>\<open>Error\<close> changes the displayed result and the
  flag only: the buffer, the ledger, its stored copy and the navigation stay, and a following
  \<^verbatim>\<open>DEL\<close> removes the last character of the buffer that failed.
\<close>

theorem equals_error_keeps_buffer:
  "\<not> checkSecretCode (expression st) \<Longrightarrow>
   evaluateExpression host (expression st) = ''Error'' \<Longrightarrow>
     (let st' = handleButtonPress host env ''='' st
      in st' = st\<lparr>result := ''Error'', justCalculated := True\<rparr> \<and>
         expression st' = expression st \<and> history st' = history st \<and>
         stored st' = stored st \<and> navigated st' = navigated st \<and>
         expression (handleButtonPress host env' ''DEL'' st') =
           (if length (expression st) \<le> 1 then ''0'' else butlast (expression st)))"
  by (simp add: handleButtonPress_def Let_def)

text \<open>A division by zero, then \<^verbatim>\<open>DEL\<close>.\<close>

theorem equals_error_keeps_buffer_witness:
  "\<not> checkSecretCode ''5/0'' \<and> evaluateExpression no_host ''5/0'' = ''Error'' \<and>
   handleButtonPress no_host (clock 1) ''='' (initial\<lparr>expression := ''5/0''\<rparr>) =
     initial\<lparr>expression := ''5/0'', result := ''Error'', justCalculated := True\<rparr> \<and>
   expression (handleButtonPress no_host (clock 2) ''DEL''
     (handleButtonPress no_host (clock 1) ''='' (initial\<lparr>expression := ''5/0''\<rparr>))) = ''5/''"
proof -
  have s: "\<not> checkSecretCode (expression (initial\<lparr>expression := ''5/0''\<rparr>))"
    by (simp add: press_simps)
  have v: "evaluateExpression no_host (expression (initial\<lparr>expression := ''5/0''\<rparr>)) = ''Error''"
    by (simp add: engine_eval)
  show ?thesis
    using equals_error_keeps_buffer[OF s v, of "clock 1" "clock 2"] s v
    by (auto simp: Let_def initial_def)
qed


text \<open>
  C7. As stated the claim empties the stored copy of the ledger whatever happens. A write that
  \<^verbatim>\<open>AsyncStorage\<close> refuses is caught in \<^verbatim>\<open>saveHistory\<close>, and the stored copy keeps its
  entries:
\<close>

theorem clear_leaves_failed_write:
  "loadHistory (stored (handleButtonPress no_host ((clock 1)\<lparr>setItem_ok := False\<rparr>) ''C''
      (initial\<lparr>stored := Some [\<lparr>item_id = ''1'', item_expression = ''2+2'',
                                  item_result = ''4'', item_timestamp = 1\<rparr>]\<rparr>))) \<noteq> []"
  by (simp add: handleButtonPress_def saveHistory_def loadHistory_def initial_def clock_def)

text \<open>
  C7, amended. From every state the \<^verbatim>\<open>C\<close> key resets the buffer to \<^verbatim>\<open>0\<close>, clears the
  displayed result and the flag and empties the ledger in memory. The stored copy is emptied
  when the write succeeds, and is left as it was when the write fails.
\<close>

theorem clear_resets:
  "(let st' = handleButtonPress host env ''C'' st
    in expression st' = ''0'' \<and> result st' = [] \<and> \<not> justCalculated st' \<and> history st' = [] \<and>
       navigated st' = navigated st \<and>
       (setItem_ok env \<longrightarrow> stored st' = Some [] \<and> loadHistory (stored st') = []) \<and>
       (\<not> setItem_ok env \<longrightarrow> stored st' = stored st))"
  by (simp add: handleButtonPress_def saveHistory_def loadHistory_def Let_def)

text \<open>Clearing a state with a pending operator, a result and one entry in the ledger.\<close>

theorem clear_resets_witness:
  "setItem_ok (clock 1) \<and>
   handleButtonPress no_host (clock 1) ''C''
     \<lparr>expression = ''12+'', result = ''7'',
      history = [\<lparr>item_id = ''1'', item_expression = ''3+4'', item_result = ''7'', item_timestamp = 1\<rparr>],
      justCalculated = True,
      stored = Some [\<lparr>item_id = ''1'', item_expression = ''3+4'', item_result = ''7'', item_timestamp = 1\<rparr>],
      navigated = []\<rparr> =
   \<lparr>expression = ''0'', result = [], history = [], justCalculated = False, stored = Some [],
    navigated = []\<rparr>"
  using clear_resets[of no_host "clock 1"
     "\<lparr>expression = ''12+'', result = ''7'',
      history = [\<lparr>item_id = ''1'', item_expression = ''3+4'', item_result = ''7'', item_timestamp = 1\<rparr>],
      justCalculated = True,
      stored = Some [\<lparr>item_id = ''1'', item_expression = ''3+4'', item_result = ''7'', item_timestamp = 1\<rparr>],
      navigated = []\<rparr>"]
  by (simp add: Let_def clock_def handleButtonPress_def saveHistory_def)

lemma lastNumber_operand:
  assumes "pre = [] \<or> is_operator (last pre)" "operator_free operand"
  shows "lastNumber (pre @ operand) = operand"
proof -
  have a: "takeWhile (\<lambda>c. \<not> is_operator c) (rev operand @ rev pre) = rev operand"
  proof (cases "pre = []")
    case True
    then show ?thesis using assms(2) by (simp add: operator_free_def list_all_iff)
  next
    case False
    with assms(1) have "is_operator (hd (rev pre))" by (simp add: hd_rev)
    with False have "takeWhile (\<lambda>c. \<not> is_operator c) (rev pre) = []" by (cases "rev pre") auto
    moreover have "takeWhile (\<lambda>c. \<not> is_operator c) (rev operand @ rev pre) =
        rev operand @ takeWhile (\<lambda>c. \<not> is_operator c) (rev pre)"
      by (rule takeWhile_append2) (use assms(2) in \<open>auto simp: operator_free_def list_all_iff\<close>)
    ultimately show ?thesis by simp
  qed
  show ?thesis by (simp add: lastNumber_def a)
qed

text \<open>
  C9. Let the buffer end in \<open>operand\<close>, the characters since the last operator. The dot key
  leaves the buffer unchanged when \<open>operand\<close> contains a dot and appends a dot otherwise,
  whatever the rest of the state is.
\<close>

theorem decimal_guard:
  "expression st = pre @ operand \<Longrightarrow> pre = [] \<or> is_operator (last pre) \<Longrightarrow>
   operator_free operand \<Longrightarrow>
     expression (handleButtonPress host env ''.'' st) =
       (if CHR ''.'' \<in> set operand then expression st else expression st @ ''.'')"
  by (simp add: handleButtonPress_def updateExpression_def has_digit_def has_operator_def
        is_digit_def is_operator_def lastNumber_operand)

text \<open>The buffer \<^verbatim>\<open>3.5\<close> stays; the buffer \<^verbatim>\<open>3.5+2\<close> takes the dot.\<close>

theorem decimal_guard_witness:
  "expression (initial\<lparr>expression := ''3.5''\<rparr>) = [] @ ''3.5'' \<and> operator_free ''3.5'' \<and>
   expression (handleButtonPress no_host (clock 1) ''.'' (initial\<lparr>expression := ''3.5''\<rparr>)) = ''3.5'' \<and>
   expression (initial\<lparr>expression := ''3.5+2''\<rparr>) = ''3.5+'' @ ''2'' \<and>
   is_operator (last ''3.5+'') \<and> operator_free ''2'' \<and>
   expression (handleButtonPress no_host (clock 1) ''.'' (initial\<lparr>expression := ''3.5+2''\<rparr>)) = ''3.5+2.''"
proof -
  have a: "expression (initial\<lparr>expression := ''3.5''\<rparr>) = [] @ ''3.5''"
    and b: "expression (initial\<lparr>expression := ''3.5+2''\<rparr>) = ''3.5+'' @ ''2''"
    and c: "operator_free ''3.5''" "operator_free ''2''" "is_operator (last ''3.5+'')"
    by (simp_all add: is_operator_def)
  show ?thesis
    using decimal_guard[OF a _ c(1), of no_host "clock 1"]
      decimal_guard[OF b _ c(2), of no_host "clock 1"] c
    by simp
qed

section \<open>After the equals key\<close>

lemma single_key_simps:
  "is_digit d \<Longrightarrow> [d] \<noteq> ''C'' \<and> [d] \<noteq> ''='' \<and> has_digit [d] \<and> \<not> has_operator [d]"
  "is_operator c \<Longrightarrow> [c] \<noteq> ''C'' \<and> [c] \<noteq> ''='' \<and> has_operator [c] \<and> \<not> has_digit [c]"
  by (auto simp: is_digit_def is_operator_def has_digit_def has_operator_def)

text \<open>
  C10. After an equals key on a buffer that is not the secret code, whether the evaluation
  succeeds or returns \<^verbatim>\<open>Error\<close>, the just-calculated flag is set. The next key, when it is a
  digit, makes the buffer that digit alone; when it is an operator, makes the buffer the displayed
  result followed by the operator, which after a failed evaluation is \<^verbatim>\<open>Error\<close> followed by the
  operator. Either key clears the flag.
\<close>

theorem after_equals:
  "\<not> checkSecretCode (expression st) \<Longrightarrow>
     (let st' = handleButtonPress host env ''='' st
      in justCalculated st' \<and> result st' = evaluateExpression host (expression st) \<and>
         (is_digit d \<longrightarrow>
            expression (handleButtonPress host env' [d] st') = [d] \<and>
            \<not> justCalculated (handleButtonPress host env' [d] st')) \<and>
         (is_operator c \<longrightarrow>
            expression (handleButtonPress host env' [c] st') = result st' @ [c] \<and>
            \<not> justCalculated (handleButtonPress host env' [c] st')) \<and>
         (is_operator c \<longrightarrow> evaluateExpression host (expression st) = ''Error'' \<longrightarrow>
            expression (handleButtonPress host env' [c] st') = ''Error'' @ [c]))"
  using single_key_simps[of d] single_key_simps(2)[of c]
  by (auto simp: handleButtonPress_def updateExpression_def Let_def)

text \<open>A digit and an operator after a division by zero, an operator after \<^verbatim>\<open>2+3*4\<close>.\<close>

theorem after_equals_witness:
  "\<not> checkSecretCode (expression (initial\<lparr>expression := ''5/0''\<rparr>)) \<and>
   is_digit CHR ''7'' \<and> is_operator CHR ''+'' \<and>
   evaluateExpression no_host ''5/0'' = ''Error'' \<and>
   justCalculated (handleButtonPress no_host (clock 1) ''='' (initial\<lparr>expression := ''5/0''\<rparr>)) \<and>
   expression (handleButtonPress no_host (clock 2) ''7''
     (handleButtonPress no_host (clock 1) ''='' (initial\<lparr>expression := ''5/0''\<rparr>))) = ''7'' \<and>
   expression (handleButtonPress no_host (clock 2) ''+''
     (handleButtonPress no_host (clock 1) ''='' (initial\<lparr>expression := ''5/0''\<rparr>))) = ''Error+'' \<and>
   expression (handleButtonPress no_host (clock 2) ''*''
     (handleButtonPress no_host (clock 1) ''='' (initial\<lparr>expression := ''2+3*4''\<rparr>))) = ''14*''"
proof -
  have s: "\<not> checkSecretCode (expression (initial\<lparr>expression := ''5/0''\<rparr>))"
    "\<not> checkSecretCode (expression (initial\<lparr>expression := ''2+3*4''\<rparr>))"
    by (simp_all add: press_simps)
  have v: "evaluateExpression no_host ''5/0'' = ''Error''"
    "evaluateExpression no_host ''2+3*4'' = ''14''"
    by (simp_all add: engine_eval print_eval)
  have k: "is_digit CHR ''7''" "is_operator CHR ''+''" "is_operator CHR ''*''"
    by (simp_all add: is_digit_def is_operator_def)
  show ?thesis
    using after_equals[OF s(1), of no_host "clock 1" "CHR ''7''" "clock 2" "CHR ''+''"]
      after_equals[OF s(2), of no_host "clock 1" "CHR ''7''" "clock 2" "CHR ''*''"] s v k
    by (simp add: Let_def initial_def)
qed

section \<open>The history ledger\<close>

lemma press_history:
  "history (handleButtonPress host env value st) =
     (if value = ''C'' then []
      else if successful host value st then take 10 (entry host env st # history st)
      else history st)"
  by (simp add: handleButtonPress_def successful_def entry_def Let_def)

lemma take_10_Cons_take: "take 10 (e # take 10 acc) = take 10 (e # acc)"
  by (simp add: take_Cons')

lemma presses_history:
  "history st = take 10 acc \<Longrightarrow> history (presses host ks st) = take 10 (recorded host ks st acc)"
proof (induction ks arbitrary: st acc)
  case Nil
  then show ?case by simp
next
  case (Cons k ks)
  obtain env v where k: "k = (env, v)" by (cases k)
  have "history (handleButtonPress host env v st) =
      take 10 (if v = ''C'' then []
               else if successful host v st then entry host env st # acc
               else acc)"
    using Cons.prems by (simp add: press_history take_10_Cons_take)
  from Cons.IH[OF this] show ?case by (simp add: k)
qed

text \<open>
  C6. A key press keeps the ledger at ten entries or fewer, and the ledger reached from the
  initial state has at most ten. A successful evaluation puts its one entry in front and keeps
  the first ten: the entry is added when there were fewer than ten, and the oldest entry, the
  last, is dropped when there were ten. Any other key but \<^verbatim>\<open>C\<close> leaves the ledger as it was.
  Hence after any sequence of keys the ledger is the first ten of all entries recorded since the
  last \<^verbatim>\<open>C\<close>, the newest first.
\<close>

theorem history_ledger:
  "(length (history st) \<le> 10 \<longrightarrow> length (history (handleButtonPress host env value st)) \<le> 10) \<and>
   length (history (presses host ks initial)) \<le> 10 \<and>
   (successful host value st \<longrightarrow>
      history (handleButtonPress host env value st) = take 10 (entry host env st # history st) \<and>
      hd (history (handleButtonPress host env value st)) = entry host env st \<and>
      (length (history st) < 10 \<longrightarrow>
         history (handleButtonPress host env value st) = entry host env st # history st) \<and>
      (length (history st) = 10 \<longrightarrow>
         history (handleButtonPress host env value st) = entry host env st # butlast (history st))) \<and>
   (\<not> successful host value st \<longrightarrow> value \<noteq> ''C'' \<longrightarrow>
      history (handleButtonPress host env value st) = history st) \<and>
   (history st = take 10 acc \<longrightarrow>
      history (presses host ks st) = take 10 (recorded host ks st acc)) \<and>
   history (presses host ks initial) = take 10 (recorded host ks initial [])"
proof -
  have i: "history initial = take 10 []" by (simp add: initial_def)
  have b: "length (history st) = 10 \<Longrightarrow> take 9 (history st) = butlast (history st)"
    by (simp add: butlast_conv_take)
  have "length (history (presses host ks initial)) \<le> 10"
    by (simp add: presses_history[OF i])
  moreover have "successful host value st \<Longrightarrow> value \<noteq> ''C''"
    by (auto simp: successful_def)
  ultimately show ?thesis
    using presses_history[OF i, of host ks] presses_history[of st acc host ks] b
    by (auto simp: press_history take_Cons')
qed


text \<open>Eleven evaluations of the buffer \<^verbatim>\<open>0\<close> at the clock readings 1 to 11: the entries of the
  readings 11 down to 2 remain.\<close>

theorem history_ledger_witness:
  "history (presses no_host
      [(clock 1, ''=''), (clock 2, ''=''), (clock 3, ''=''), (clock 4, ''=''), (clock 5, ''=''),
       (clock 6, ''=''), (clock 7, ''=''), (clock 8, ''=''), (clock 9, ''=''), (clock 10, ''=''),
       (clock 11, ''='')] initial) =
   map (\<lambda>(i, t). \<lparr>item_id = i, item_expression = ''0'', item_result = ''0'', item_timestamp = t\<rparr>)
     [(''11'', 11), (''10'', 10), (''9'', 9), (''8'', 8), (''7'', 7), (''6'', 6), (''5'', 5),
      (''4'', 4), (''3'', 3), (''2'', 2)]"
proof -
  have v: "evaluateExpression no_host ''0'' = ''0''"
    by (simp add: engine_eval print_eval)
  have s: "successful no_host ''='' st = (expression st \<noteq> ''69/67'' \<and> evaluateExpression no_host (expression st) \<noteq> ''Error'')" for st
    by (simp add: successful_def press_simps)
  have p: "handleButtonPress no_host env ''='' st =
      st\<lparr>history := take 10 (entry no_host env st # history st),
         stored := saveHistory (setItem_ok env) (take 10 (entry no_host env st # history st)) (stored st),
         result := ''0'', justCalculated := True\<rparr>" if "expression st = ''0''" for env st
    using that v by (simp add: press_simps entry_def Let_def)
  show ?thesis
    using history_ledger[of initial no_host "clock 1" "''=''"
      "[(clock 1, ''=''), (clock 2, ''=''), (clock 3, ''=''), (clock 4, ''=''), (clock 5, ''=''),
       (clock 6, ''=''), (clock 7, ''=''), (clock 8, ''=''), (clock 9, ''=''), (clock 10, ''=''),
       (clock 11, ''='')]" "[]"]
    by (simp add: s p v entry_def initial_def clock_def int_toString_def digits_of.simps digit_char_def)
qed

section \<open>Operator precedence\<close>

lemma tokens_of_simps [simp]:
  "tokens_of [] = []"
  "tokens_of ((c, v) # r) = TPunct c # TNum v # tokens_of r"
  by (simp_all add: tokens_of_def)

lemma operator_not_operand: "is_operator c \<Longrightarrow> \<not> is_operand_char c"
  by (auto simp: is_operator_def is_operand_char_def is_digit_def)

lemma takeWhile_operand:
  assumes "list_all is_operand_char s" "t = [] \<or> \<not> is_operand_char (hd t)"
  shows "takeWhile is_operand_char (s @ t) = s" "dropWhile is_operand_char (s @ t) = t"
proof -
  have a: "\<And>x. x \<in> set s \<Longrightarrow> is_operand_char x" using assms(1) by (simp add: list_all_iff)
  have b: "takeWhile is_operand_char t = []" "dropWhile is_operand_char t = t"
    using assms(2) by (cases t; simp)+
  show "takeWhile is_operand_char (s @ t) = s" using a b by (simp add: takeWhile_append2)
  show "dropWhile is_operand_char (s @ t) = t" using a b by (simp add: dropWhile_append2)
qed

lemma tokenise_operand:
  assumes "is_operand s" "t = [] \<or> \<not> is_operand_char (hd t)"
  shows "tokenise b (s @ t) = map_option (Cons (TNum (literal_value s))) (tokenise True t)"
proof -
  from assms(1) obtain c cs where s: "s = c # cs" and c: "is_operand_char c"
    and all: "list_all is_operand_char (c # cs)" "list_all is_operand_char cs"
    and lit: "numeric_literal s \<noteq> None"
    by (cases s) (auto simp: is_operand_def)
  have tw: "takeWhile is_operand_char (cs @ t) = cs"
    using takeWhile_operand(1)[OF all(2) assms(2)] by simp
  have dw: "dropWhile is_operand_char (cs @ t) = t"
    using takeWhile_operand(2)[OF all(2) assms(2)] by simp
  from lit obtain v where v: "numeric_literal (c # cs) = Some v" by (auto simp: s)
  show ?thesis
    using c by (simp add: s tw dw v literal_value_def)
qed

lemma tokenise_operator:
  assumes "is_operator c" "is_operand s"
  shows "tokenise True (c # s @ t) = map_option (Cons (TPunct c)) (tokenise False (s @ t))"
proof -
  from assms(2) obtain d ds where s: "s = d # ds" and d: "is_operand_char d"
    by (cases s) (auto simp: is_operand_def)
  have "d \<noteq> CHR ''+''" "d \<noteq> CHR ''-''" "d \<noteq> CHR ''*''" "d \<noteq> CHR ''/''"
    using d by (auto simp: is_operand_char_def is_digit_def)
  moreover have "\<not> is_operand_char c" using assms(1) by (rule operator_not_operand)
  ultimately show ?thesis
    using assms(1) by (auto simp: s is_operator_def)
qed

lemma tokenise_expression_text:
  "well_formed s r \<Longrightarrow>
     tokenise b (expression_text s r) = Some (TNum (literal_value s) # tokens_of (operand_values r))"
proof (induction r arbitrary: s b)
  case Nil
  then have "is_operand s" by (simp add: well_formed_def)
  from tokenise_operand[OF this, of "[]" b] show ?case by (simp add: operand_values_def)
next
  case (Cons x r)
  obtain c s' where x: "x = (c, s')" by (cases x)
  from Cons.prems have s: "is_operand s" and c: "is_operator c" and wf: "well_formed s' r"
    by (simp_all add: well_formed_def x)
  from wf have s': "is_operand s'" by (simp add: well_formed_def)
  have nop: "\<not> is_operand_char (hd (c # expression_text s' r))"
    using c by (simp add: operator_not_operand)
  have e: "expression_text s' r = s' @ drop (length s') (expression_text s' r)"
    by (cases r) auto
  have "tokenise True (c # expression_text s' r) =
      map_option (Cons (TPunct c)) (tokenise False (expression_text s' r))"
    using tokenise_operator[OF c s', of "drop (length s') (expression_text s' r)"] e by simp
  then have "tokenise True (c # expression_text s' r) =
      Some (TPunct c # TNum (literal_value s') # tokens_of (operand_values r))"
    by (simp add: Cons.IH[OF wf])
  with tokenise_operand[OF s, of "c # expression_text s' r" b] nop show ?case
    by (simp add: x operand_values_def)
qed

lemma product_value_simps [simp]:
  "product_value x [] = x"
  "product_value x ((c, v) # r) =
     (if is_multiplicative c then product_value (apply_operator c x v) r else x)"
  by (simp_all add: product_value_def)

lemma after_product_simps [simp]:
  "after_product [] = []"
  "after_product ((c, v) # r) = (if is_multiplicative c then after_product r else (c, v) # r)"
  by (simp_all add: after_product_def)

lemma parse_product:
  "\<exists>e. parse_multiplicative_rest l (tokens_of r) = Some (e, tokens_of (after_product r)) \<and>
       eval e = product_value (eval l) r"
proof (induction r arbitrary: l)
  case Nil
  show ?case by simp
next
  case (Cons x r)
  obtain c v where x: "x = (c, v)" by (cases x)
  show ?case
  proof (cases "is_multiplicative c")
    case True
    define l' where "l' = Bin (if c = CHR ''*'' then Mul else Div) l (Lit v)"
    from Cons.IH[of l'] obtain e where
      e: "parse_multiplicative_rest l' (tokens_of r) = Some (e, tokens_of (after_product r))"
         "eval e = product_value (eval l') r" by blast
    have "eval l' = apply_operator c (eval l) v"
      using True by (auto simp: l'_def is_multiplicative_def apply_operator_def)
    with e True show ?thesis
      by (auto simp: x l'_def is_multiplicative_def)
  next
    case False
    then show ?thesis
      by (simp add: x is_multiplicative_def)
  qed
qed

lemma two_level_rest_unfold:
  "two_level_rest acc aop cur r =
     (case after_product r of
        [] \<Rightarrow> apply_operator aop acc (product_value cur r)
      | (c, v) # r' \<Rightarrow> two_level_rest (apply_operator aop acc (product_value cur r)) c v r')"
proof (induction r arbitrary: cur)
  case Nil
  show ?case by simp
next
  case (Cons x r)
  obtain c v where x: "x = (c, v)" by (cases x)
  show ?case
  proof (cases "is_multiplicative c")
    case True
    with Cons.IH[of "apply_operator c cur v"] show ?thesis
      by (simp add: x split: list.split)
  next
    case False
    then show ?thesis by (simp add: x)
  qed
qed

lemma two_level_unfold:
  "two_level cur r =
     (case after_product r of
        [] \<Rightarrow> product_value cur r
      | (c, v) # r' \<Rightarrow> two_level_rest (product_value cur r) c v r')"
proof (induction r arbitrary: cur)
  case Nil
  show ?case by simp
next
  case (Cons x r)
  obtain c v where x: "x = (c, v)" by (cases x)
  show ?case
  proof (cases "is_multiplicative c")
    case True
    with Cons.IH[of "apply_operator c cur v"] show ?thesis
      by (simp add: x split: list.split)
  next
    case False
    then show ?thesis by (simp add: x)
  qed
qed

lemma after_product_length: "length (after_product r) \<le> length r"
  by (simp add: after_product_def length_dropWhile_le)

lemma after_product_head:
  "after_product r = (c, v) # r' \<Longrightarrow> \<not> is_multiplicative c"
  unfolding after_product_def using hd_dropWhile[of "\<lambda>(c, v). is_multiplicative c" r] by auto

lemma after_product_set: "set (after_product r) \<subseteq> set r"
  unfolding after_product_def by (rule set_dropWhileD[THEN subsetI]) 

lemma parse_sum:
  "list_all (\<lambda>(c, v). is_operator c) r \<Longrightarrow> is_operator aop \<Longrightarrow> \<not> is_multiplicative aop \<Longrightarrow>
     \<exists>e. parse_additive_rest l (TPunct aop # TNum v # tokens_of r) = Some (e, []) \<and>
         eval e = two_level_rest (eval l) aop v r"
proof (induction "length r" arbitrary: r l aop v rule: less_induct)
  case less
  from parse_product[of "Lit v" r] obtain e where
    e: "parse_multiplicative_rest (Lit v) (tokens_of r) = Some (e, tokens_of (after_product r))"
       "eval e = product_value v r" by auto
  have add: "aop = CHR ''+'' \<or> aop = CHR ''-''"
    using less.prems(2,3) by (auto simp: is_operator_def is_multiplicative_def)
  define l' where "l' = Bin (if aop = CHR ''+'' then Add else Sub) l e"
  have l': "eval l' = apply_operator aop (eval l) (product_value v r)"
    using add e(2) by (auto simp: l'_def apply_operator_def)
  have step: "parse_additive_rest l (TPunct aop # TNum v # tokens_of r) =
      parse_additive_rest l' (tokens_of (after_product r))"
    using add e(1) by (auto simp: parse_multiplicative_def l'_def)
  show ?case
  proof (cases "after_product r")
    case Nil
    then show ?thesis
      using step l' by (simp add: two_level_rest_unfold[of _ _ _ r])
  next
    case (Cons x r')
    obtain c w where x: "x = (c, w)" by (cases x)
    have len: "length r' < length r"
      using after_product_length[of r] Cons by simp
    have "(c, w) \<in> set r" "set r' \<subseteq> set r"
      using after_product_set[of r] Cons x by auto
    then have ops: "is_operator c" "list_all (\<lambda>(c, v). is_operator c) r'"
      using less.prems(1) by (auto simp: list_all_iff)
    have nm: "\<not> is_multiplicative c" using after_product_head[of r c w r'] Cons x by simp
    from less.hyps[OF len ops(2) ops(1) nm, of l' w] obtain e' where
      "parse_additive_rest l' (TPunct c # TNum w # tokens_of r') = Some (e', [])"
      "eval e' = two_level_rest (eval l') c w r'" by auto
    then show ?thesis
      using step l' Cons x by (simp add: two_level_rest_unfold[of _ _ _ r])
  qed
qed

lemma parse_expression:
  assumes "list_all (\<lambda>(c, v). is_operator c) r"
  shows "\<exists>e. parse_additive (TNum v # tokens_of r) = Some (e, []) \<and> eval e = two_level v r"
proof -
  from parse_product[of "Lit v" r] obtain e where
    e: "parse_multiplicative_rest (Lit v) (tokens_of r) = Some (e, tokens_of (after_product r))"
       "eval e = product_value v r" by auto
  have step: "parse_additive (TNum v # tokens_of r) =
      parse_additive_rest e (tokens_of (after_product r))"
    using e(1) by (simp add: parse_additive_def parse_multiplicative_def)
  show ?thesis
  proof (cases "after_product r")
    case Nil
    then show ?thesis using step e(2) by (simp add: two_level_unfold[of _ r])
  next
    case (Cons x r')
    obtain c w where x: "x = (c, w)" by (cases x)
    have "(c, w) \<in> set r" "set r' \<subseteq> set r"
      using after_product_set[of r] Cons x by auto
    then have ops: "is_operator c" "list_all (\<lambda>(c, v). is_operator c) r'"
      using assms by (auto simp: list_all_iff)
    have nm: "\<not> is_multiplicative c" using after_product_head[of r c w r'] Cons x by simp
    from parse_sum[OF ops(2) ops(1) nm, of e w] obtain e' where
      "parse_additive_rest e (TPunct c # TNum w # tokens_of r') = Some (e', [])"
      "eval e' = two_level_rest (eval e) c w r'" by auto
    then show ?thesis
      using step e(2) Cons x by (simp add: two_level_unfold[of _ r])
  qed
qed

lemma js_return_expression_text:
  assumes "well_formed s r"
  shows "js_return host (expression_text s r) =
           Normal (JNumber (two_level (literal_value s) (operand_values r)))"
proof -
  have ops: "list_all (\<lambda>(c, v). is_operator c) (operand_values r)"
    using assms by (auto simp: well_formed_def operand_values_def list_all_iff)
  from parse_expression[OF ops, of "literal_value s"] obtain e where
    "parse_additive (TNum (literal_value s) # tokens_of (operand_values r)) = Some (e, [])"
    "eval e = two_level (literal_value s) (operand_values r)" by auto
  then show ?thesis
    by (simp add: js_return_def tokenise_expression_text[OF assms])
qed

lemma keypad_char_unchanged:
  "is_operand_char c \<or> is_operator c \<Longrightarrow> normalise_glyph c = c \<and> allowed_char c"
  by (auto simp: is_operand_char_def is_operator_def is_digit_def normalise_glyph_def
        allowed_char_def)

lemma expression_text_chars:
  "well_formed s r \<Longrightarrow>
     expression_text s r \<noteq> [] \<and>
     list_all (\<lambda>c. is_operand_char c \<or> is_operator c) (expression_text s r)"
proof (induction r arbitrary: s)
  case Nil
  then show ?case by (auto simp: well_formed_def is_operand_def list_all_iff)
next
  case (Cons x r)
  obtain c s' where x: "x = (c, s')" by (cases x)
  from Cons.prems have "well_formed s' r" "is_operator c" "is_operand s"
    by (simp_all add: well_formed_def x)
  with Cons.IH[of s'] show ?case
    by (auto simp: x is_operand_def list_all_iff)
qed

lemma evaluateExpression_expression_text:
  assumes "well_formed s r"
  shows "evaluateExpression host (expression_text s r) =
           display (two_level (literal_value s) (operand_values r))"
proof -
  from expression_text_chars[OF assms] have ne: "expression_text s r \<noteq> []"
    and ch: "\<And>c. c \<in> set (expression_text s r) \<Longrightarrow> normalise_glyph c = c \<and> allowed_char c"
    using keypad_char_unchanged by (auto simp: list_all_iff)
  have n: "map normalise_glyph (expression_text s r) = expression_text s r"
    using ch by (simp add: map_idI)
  have w: "whitelisted (expression_text s r)"
    using ne ch by (simp add: whitelisted_def list_all_iff)
  show ?thesis
    by (simp add: evaluateExpression_def n w js_return_expression_text[OF assms] display_def)
qed

text \<open>
  C3. On every well-formed expression the engine computes the two-level value, and
  \<^verbatim>\<open>evaluateExpression\<close> returns that value as it displays numbers: multiplication and
  division come before addition and subtraction, and each level goes from left to right. The
  operand values are the values of the literals as the engine reads them. In particular
  \<^verbatim>\<open>2+3*4\<close> gives \<^verbatim>\<open>14\<close> and \<^verbatim>\<open>2*3+4\<close> gives \<^verbatim>\<open>10\<close>.
\<close>

theorem precedence:
  "(well_formed s r \<longrightarrow>
      js_return host (expression_text s r) =
        Normal (JNumber (two_level (literal_value s) (operand_values r))) \<and>
      evaluateExpression host (expression_text s r) =
        display (two_level (literal_value s) (operand_values r))) \<and>
   two_level a [(CHR ''+'', b), (CHR ''*'', c)] = dadd a (dmul b c) \<and>
   two_level a [(CHR ''*'', b), (CHR ''+'', c)] = dadd (dmul a b) c \<and>
   two_level a [(CHR ''-'', b), (CHR ''/'', c)] = dsub a (ddiv b c) \<and>
   two_level a [(CHR ''-'', b), (CHR ''+'', c)] = dadd (dsub a b) c \<and>
   two_level a [(CHR ''/'', b), (CHR ''*'', c)] = dmul (ddiv a b) c \<and>
   evaluateExpression host ''2+3*4'' = ''14'' \<and>
   evaluateExpression host ''2*3+4'' = ''10''"
proof -
  have "evaluateExpression host ''2+3*4'' = ''14''" "evaluateExpression host ''2*3+4'' = ''10''"
    by (simp_all add: engine_eval print_eval)
  then show ?thesis
    using js_return_expression_text[of s r host] evaluateExpression_expression_text[of s r host]
    by (simp add: is_multiplicative_def apply_operator_def)
qed

text \<open>A well-formed expression with both levels and two operators on each.\<close>

theorem precedence_witness:
  "well_formed ''8'' [(CHR ''-'', ''3''), (CHR ''*'', ''2''), (CHR ''-'', ''12''), (CHR ''/'', ''4''), (CHR ''/'', ''3'')] \<and>
   expression_text ''8'' [(CHR ''-'', ''3''), (CHR ''*'', ''2''), (CHR ''-'', ''12''), (CHR ''/'', ''4''), (CHR ''/'', ''3'')] = ''8-3*2-12/4/3'' \<and>
   js_return no_host ''8-3*2-12/4/3'' = Normal (JNumber (Finite False 1)) \<and>
   evaluateExpression no_host ''8-3*2-12/4/3'' = ''1''"
proof -
  have wf: "well_formed ''8'' [(CHR ''-'', ''3''), (CHR ''*'', ''2''), (CHR ''-'', ''12''), (CHR ''/'', ''4''), (CHR ''/'', ''3'')]"
    by (simp add: well_formed_def is_operand_def is_operator_def engine_eval)
  have tl: "two_level (literal_value ''8'') (operand_values [(CHR ''-'', ''3''), (CHR ''*'', ''2''), (CHR ''-'', ''12''), (CHR ''/'', ''4''), (CHR ''/'', ''3'')]) = Finite False 1"
    by (simp add: literal_value_def operand_values_def is_multiplicative_def apply_operator_def engine_eval)
  have d: "display (Finite False 1) = ''1''"
    by (simp add: display_def engine_eval print_eval)
  show ?thesis
    using precedence[of "''8''" "[(CHR ''-'', ''3''), (CHR ''*'', ''2''), (CHR ''-'', ''12''), (CHR ''/'', ''4''), (CHR ''/'', ''3'')]" no_host] wf
    by (simp add: tl d)
qed

section \<open>When the evaluator returns an error\<close>

text \<open>
  C4. \<^verbatim>\<open>evaluateExpression\<close> returns \<^verbatim>\<open>Error\<close> exactly when the input is malformed or its
  value is not finite, and the two cases exclude each other while the returned string is the
  same. A division by zero is of the second kind; a trailing operator and a letter are of the
  first.
\<close>

theorem evaluateExpression_Error:
  "(evaluateExpression host expr = ''Error'' \<longleftrightarrow> malformed host expr \<or> non_finite host expr) \<and>
   (malformed host expr \<longrightarrow> \<not> non_finite host expr) \<and>
   evaluateExpression host ''5/0'' = ''Error'' \<and> non_finite host ''5/0'' \<and>
   evaluateExpression host ''5+'' = ''Error'' \<and> malformed host ''5+'' \<and>
   evaluateExpression host ''5a'' = ''Error'' \<and> malformed host ''5a''"
proof -
  have a: "evaluateExpression host expr = ''Error'' \<longleftrightarrow> malformed host expr \<or> non_finite host expr"
    using Number_toString_not_Error
    by (auto simp: evaluateExpression_def malformed_def non_finite_def Let_def
             split: completion.splits)
  have b: "malformed host expr \<longrightarrow> \<not> non_finite host expr"
    by (auto simp: malformed_def non_finite_def Let_def)
  have c: "non_finite host ''5/0''" "malformed host ''5+''" "malformed host ''5a''"
    by (simp_all add: non_finite_def malformed_def engine_eval)
  have d: "evaluateExpression host ''5/0'' = ''Error''" "evaluateExpression host ''5+'' = ''Error''"
    "evaluateExpression host ''5a'' = ''Error''"
    by (simp_all add: engine_eval)
  from a b c d show ?thesis by blast
qed

text \<open>One input of each kind, the empty input, and an input that is neither.\<close>

theorem evaluateExpression_Error_witness:
  "non_finite no_host ''0/0'' \<and> evaluateExpression no_host ''0/0'' = ''Error'' \<and>
   malformed no_host ''1.2.3'' \<and> evaluateExpression no_host ''1.2.3'' = ''Error'' \<and>
   malformed no_host ''2+x'' \<and> evaluateExpression no_host ''2+x'' = ''Error'' \<and>
   malformed no_host [] \<and> evaluateExpression no_host [] = ''Error'' \<and>
   \<not> malformed no_host ''6/3'' \<and> \<not> non_finite no_host ''6/3'' \<and>
   evaluateExpression no_host ''6/3'' = ''2'' \<and>
   evaluateExpression no_host [CHR ''6'', char_of (247 :: nat), CHR ''3''] = ''2'' \<and>
   non_finite no_host [CHR ''6'', char_of (247 :: nat), CHR ''0'']"
proof -
  have c: "non_finite no_host ''0/0''" "malformed no_host ''1.2.3''" "malformed no_host ''2+x''"
    "malformed no_host []" "\<not> malformed no_host ''6/3''" "\<not> non_finite no_host ''6/3''"
    "non_finite no_host [CHR ''6'', char_of (247 :: nat), CHR ''0'']"
    by (simp_all add: non_finite_def malformed_def engine_eval)
  have v: "evaluateExpression no_host ''6/3'' = ''2''"
    "evaluateExpression no_host [CHR ''6'', char_of (247 :: nat), CHR ''3''] = ''2''"
    by (simp_all add: engine_eval print_eval)
  show ?thesis
    using evaluateExpression_Error[of no_host "''0/0''"] evaluateExpression_Error[of no_host "''1.2.3''"]
      evaluateExpression_Error[of no_host "''2+x''"] evaluateExpression_Error[of no_host "[]"] c v
    by simp
qed

section \<open>What the buffer can hold\<close>

lemma grid_key_classes:
  assumes "grid_key value"
  shows "value = ''C'' \<or> value = ''DEL'' \<or> value = ''='' \<or> value = ''.'' \<or>
         (\<exists>d. is_digit d \<and> value = [d]) \<or> (\<exists>c. is_operator c \<and> value = [c])"
proof -
  from assms have "value \<in> set (map fst BUTTON_LAYOUT)" by (simp add: grid_key_def)
  then have "value = ''C'' \<or> value = ''DEL'' \<or> value = ''/'' \<or> value = ''*'' \<or>
      value = ''7'' \<or> value = ''8'' \<or> value = ''9'' \<or> value = ''-'' \<or>
      value = ''4'' \<or> value = ''5'' \<or> value = ''6'' \<or> value = ''+'' \<or>
      value = ''1'' \<or> value = ''2'' \<or> value = ''3'' \<or> value = ''='' \<or>
      value = ''0'' \<or> value = ''.''"
    unfolding BUTTON_LAYOUT_def by simp
  then show ?thesis
    by (elim disjE) (simp_all add: is_digit_def is_operator_def)
qed

lemma grid_key_cases:
  assumes "grid_key value"
  obtains "value = ''C''" | "value = ''DEL''" | "value = ''=''" | "value = ''.''"
    | d where "is_digit d" "value = [d]" | c where "is_operator c" "value = [c]"
  using grid_key_classes[OF assms] by blast

lemma update_digit:
  "is_digit d \<Longrightarrow>
     updateExpression j res [d] prev = (if j \<or> prev = ''0'' then [d] else prev @ [d])"
  by (auto simp: updateExpression_def has_digit_def has_operator_def is_digit_def is_operator_def)

lemma update_operator:
  "is_operator c \<Longrightarrow>
     updateExpression j res [c] prev =
       (if j then res @ [c] else if ends_with_operator prev then butlast prev @ [c] else prev @ [c])"
  by (auto simp: updateExpression_def has_digit_def has_operator_def is_digit_def is_operator_def)

lemma update_dot:
  "updateExpression j res ''.'' prev =
     (if CHR ''.'' \<in> set (lastNumber prev) then prev else prev @ ''.'')"
  by (simp add: updateExpression_def has_digit_def has_operator_def is_digit_def is_operator_def)

lemma press_input:
  "value \<noteq> ''C'' \<Longrightarrow> value \<noteq> ''DEL'' \<Longrightarrow> value \<noteq> ''='' \<Longrightarrow>
     handleButtonPress host env value st =
       st\<lparr>expression := updateExpression (justCalculated st) (result st) value (expression st),
          justCalculated := False\<rparr>"
  by (simp add: handleButtonPress_def)

lemma not_adjacent_butlast: "\<not> adjacent_operators b \<Longrightarrow> \<not> adjacent_operators (butlast b)"
proof (cases "b = []")
  case True
  then show ?thesis by simp
next
  case False
  assume "\<not> adjacent_operators b"
  then have "\<not> adjacent_operators (butlast b @ [last b])" using False by simp
  then show ?thesis unfolding adjacent_operators_append by simp
qed

lemma not_adjacent_snoc:
  "\<not> adjacent_operators b \<Longrightarrow> b = [] \<or> \<not> is_operator (last b) \<or> \<not> is_operator c \<Longrightarrow>
     \<not> adjacent_operators (b @ [c])"
  unfolding adjacent_operators_append by auto

lemma before_last_operator:
  assumes "\<not> adjacent_operators b" "b \<noteq> []" "is_operator (last b)"
  shows "butlast b = [] \<or> \<not> is_operator (last (butlast b))"
proof -
  have "\<not> adjacent_operators (butlast b @ [last b])" using assms by simp
  then show ?thesis unfolding adjacent_operators_append using assms(3) by auto
qed

lemma press_sound:
  assumes "grid_key value" "sound_state st"
  shows "sound_state (handleButtonPress host env value st)"
proof -
  from assms(2) have ne: "expression st \<noteq> []" and na: "\<not> adjacent_operators (expression st)"
    and rs: "result_shape (result st)" by (simp_all add: sound_state_def)
  from assms(1) show ?thesis
  proof (cases rule: grid_key_cases)
    case 1
    then show ?thesis using rs by (simp add: handleButtonPress_def sound_state_def result_shape_def)
  next
    case 2
    then show ?thesis
      using rs na not_adjacent_butlast[of "expression st"]
      by (cases "expression st" rule: rev_cases) (auto simp: handleButtonPress_def sound_state_def)
  next
    case 3
    then show ?thesis
      using rs na ne evaluateExpression_shape[of host "expression st"]
      by (auto simp: handleButtonPress_def sound_state_def result_shape_def Let_def)
  next
    case 4
    have "\<not> is_operator CHR ''.''" by (simp add: is_operator_def)
    then have "\<not> adjacent_operators (expression st @ ''.'')"
      using not_adjacent_snoc[OF na] by blast
    with 4 show ?thesis
      using rs na ne by (simp add: press_input update_dot sound_state_def)
  next
    case (5 d)
    then have k: "[d] \<noteq> ''C''" "[d] \<noteq> ''DEL''" "[d] \<noteq> ''=''"
      by (auto simp: is_digit_def)
    have "\<not> is_operator d" using 5(1) by (rule digit_not_operator)
    then have "\<not> adjacent_operators (expression st @ [d])"
      using not_adjacent_snoc[OF na] by blast
    then show ?thesis
      using rs 5 by (simp add: press_input[OF k] update_digit sound_state_def)
  next
    case (6 c)
    then have k: "[c] \<noteq> ''C''" "[c] \<noteq> ''DEL''" "[c] \<noteq> ''=''"
      by (auto simp: is_operator_def)
    have a: "\<not> adjacent_operators (result st @ [c])"
      using rs not_adjacent_snoc[of "result st" c] by (auto simp: result_shape_def)
    have b: "ends_with_operator (expression st) \<Longrightarrow> \<not> adjacent_operators (butlast (expression st) @ [c])"
      using before_last_operator[OF na ne] not_adjacent_butlast[OF na]
        not_adjacent_snoc[of "butlast (expression st)" c]
      by (auto simp: ends_with_operator_def)
    have c: "\<not> ends_with_operator (expression st) \<Longrightarrow> \<not> adjacent_operators (expression st @ [c])"
      using ne not_adjacent_snoc[OF na, of c] by (auto simp: ends_with_operator_def)
    show ?thesis
      using rs 6 a b c by (simp add: press_input[OF k] update_operator sound_state_def)
  qed
qed

lemma buffer_invariant_snoc:
  assumes "buffer_invariant b" "keypad_char c" "\<not> is_operator (last b) \<or> \<not> is_operator c"
  shows "buffer_invariant (b @ [c])"
  using assms not_adjacent_snoc[of b c]
  by (auto simp: buffer_invariant_def hd_append)

lemma buffer_invariant_butlast:
  assumes "buffer_invariant b" "1 < length b"
  shows "buffer_invariant (butlast b)"
proof -
  from assms(2) obtain x y ys where b: "b = x # y # ys" 
    by (cases b; cases "tl b") auto
  have "set (butlast b) \<subseteq> set b" by (auto dest: in_set_butlastD)
  then have "list_all keypad_char (butlast b)"
    using assms(1) by (auto simp: buffer_invariant_def list_all_iff)
  moreover have "butlast b \<noteq> []" "hd (butlast b) = hd b" by (simp_all add: b)
  ultimately show ?thesis
    using assms(1) not_adjacent_butlast[of b] by (simp add: buffer_invariant_def)
qed

lemma press_buffer_invariant:
  assumes "grid_key value" "buffer_invariant (expression st)"
    "\<not> (justCalculated st \<and> has_operator value)"
  shows "buffer_invariant (expression (handleButtonPress host env value st))"
proof -
  note inv = assms(2)
  have zero: "buffer_invariant ''0''"
    by (simp add: buffer_invariant_def keypad_char_def is_digit_def is_operator_def)
  from assms(1) show ?thesis
  proof (cases rule: grid_key_cases)
    case 1
    then show ?thesis using zero by (simp add: handleButtonPress_def)
  next
    case 2
    then show ?thesis
      using zero buffer_invariant_butlast[OF inv] by (simp add: handleButtonPress_def)
  next
    case 3
    then show ?thesis using zero inv by (simp add: handleButtonPress_def Let_def)
  next
    case 4
    have "keypad_char CHR ''.''" "\<not> is_operator CHR ''.''"
      by (simp_all add: keypad_char_def is_operator_def)
    with buffer_invariant_snoc[OF inv, of "CHR ''.''"] 4 inv show ?thesis
      by (simp add: press_input update_dot)
  next
    case (5 d)
    then have k: "[d] \<noteq> ''C''" "[d] \<noteq> ''DEL''" "[d] \<noteq> ''=''"
      by (auto simp: is_digit_def)
    have d: "keypad_char d" "\<not> is_operator d"
      using 5(1) by (simp_all add: keypad_char_def digit_not_operator)
    then have "buffer_invariant [d]" by (simp add: buffer_invariant_def)
    with buffer_invariant_snoc[OF inv, of d] d 5 show ?thesis
      by (simp add: press_input[OF k] update_digit)
  next
    case (6 c)
    then have k: "[c] \<noteq> ''C''" "[c] \<noteq> ''DEL''" "[c] \<noteq> ''=''"
      by (auto simp: is_operator_def)
    have nj: "\<not> justCalculated st"
      using assms(3) 6 by (simp add: has_operator_def)
    have kc: "keypad_char c" using 6(1) by (simp add: keypad_char_def)
    show ?thesis
    proof (cases "ends_with_operator (expression st)")
      case True
      then have l: "is_operator (last (expression st))" by (simp add: ends_with_operator_def)
      have len: "1 < length (expression st)"
        using inv l by (cases "expression st"; cases "tl (expression st)")
          (auto simp: buffer_invariant_def)
      have na: "\<not> adjacent_operators (expression st)" and ne: "expression st \<noteq> []"
        using inv by (simp_all add: buffer_invariant_def)
      from before_last_operator[OF na ne l] buffer_invariant_butlast[OF inv len]
      have "\<not> is_operator (last (butlast (expression st)))"
        by (auto simp: buffer_invariant_def)
      with buffer_invariant_snoc[OF buffer_invariant_butlast[OF inv len] kc]
      show ?thesis using True nj 6 by (simp add: press_input[OF k] update_operator)
    next
      case False
      then have "\<not> is_operator (last (expression st))"
        using inv by (simp add: ends_with_operator_def buffer_invariant_def)
      with buffer_invariant_snoc[OF inv kc] show ?thesis
        using False nj 6 by (simp add: press_input[OF k] update_operator)
    qed
  qed
qed

lemma presses_sound:
  "list_all (\<lambda>(env, value). grid_key value) ks \<Longrightarrow> sound_state st \<Longrightarrow>
     sound_state (presses host ks st)"
proof (induction ks arbitrary: st)
  case Nil
  then show ?case by simp
next
  case (Cons k ks)
  obtain env v where k: "k = (env, v)" by (cases k)
  from Cons.prems have "grid_key v" "list_all (\<lambda>(env, value). grid_key value) ks"
    by (simp_all add: k)
  with Cons.IH[of "handleButtonPress host env v st"] press_sound[of v st host env] Cons.prems(2)
  show ?case by (simp add: k)
qed

lemma presses_buffer_invariant:
  "list_all (\<lambda>(env, value). grid_key value) ks \<Longrightarrow> buffer_invariant (expression st) \<Longrightarrow>
   never_chains host ks st \<Longrightarrow> buffer_invariant (expression (presses host ks st))"
proof (induction ks arbitrary: st)
  case Nil
  then show ?case by simp
next
  case (Cons k ks)
  obtain env v where k: "k = (env, v)" by (cases k)
  from Cons.prems have g: "grid_key v" "list_all (\<lambda>(env, value). grid_key value) ks"
    and n: "\<not> (justCalculated st \<and> has_operator v)"
      "never_chains host ks (handleButtonPress host env v st)"
    by (simp_all add: k)
  from Cons.IH[OF g(2) press_buffer_invariant[OF g(1) Cons.prems(2) n(1)] n(2)]
  show ?case by (simp add: k)
qed

text \<open>
  C8. As stated the invariant fails: an operator key after the equals key copies the displayed
  result into the buffer, which brings letters after a failed evaluation and a leading minus
  after a negative result.
\<close>

theorem buffer_invariant_breaks:
  "expression (presses no_host
      [(clock 1, ''/''), (clock 2, ''0''), (clock 3, ''=''), (clock 4, ''+'')] initial) = ''Error+'' \<and>
   \<not> list_all keypad_char ''Error+'' \<and> \<not> buffer_invariant ''Error+'' \<and>
   expression (presses no_host
      [(clock 1, ''-''), (clock 2, ''5''), (clock 3, ''=''), (clock 4, ''+'')] initial) = ''-5+'' \<and>
   is_operator (hd ''-5+'') \<and> \<not> buffer_invariant ''-5+'' \<and>
   grid_key ''/'' \<and> grid_key ''0'' \<and> grid_key ''='' \<and> grid_key ''+'' \<and> grid_key ''-'' \<and>
   grid_key ''5''"
proof -
  have v: "evaluateExpression no_host ''0/0'' = ''Error''" "evaluateExpression no_host ''0-5'' = ''-5''"
    by (simp_all add: engine_eval print_eval)
  have "expression (presses no_host
      [(clock 1, ''/''), (clock 2, ''0''), (clock 3, ''=''), (clock 4, ''+'')] initial) = ''Error+''"
    by (simp add: initial_def handleButtonPress_def updateExpression_def has_digit_def
          has_operator_def is_digit_def is_operator_def ends_with_operator_def
          checkSecretCode_def SECRET_CODE_def v)
  moreover have "expression (presses no_host
      [(clock 1, ''-''), (clock 2, ''5''), (clock 3, ''=''), (clock 4, ''+'')] initial) = ''-5+''"
    by (simp add: initial_def handleButtonPress_def updateExpression_def has_digit_def
          has_operator_def is_digit_def is_operator_def ends_with_operator_def
          checkSecretCode_def SECRET_CODE_def v Let_def)
  ultimately show ?thesis
    by (simp add: buffer_invariant_def keypad_char_def is_digit_def is_operator_def grid_key_def
          BUTTON_LAYOUT_def)
qed

text \<open>
  C8, amended. After every sequence of keys of the grid from the initial state the buffer is not
  empty and has no two operators side by side. When no operator key of the sequence was pressed
  with the just-calculated flag set, the buffer also consists of keypad characters only and
  does not begin with an operator.
\<close>

theorem buffer_invariant_amended:
  "list_all (\<lambda>(env, value). grid_key value) ks \<Longrightarrow>
     expression (presses host ks initial) \<noteq> [] \<and>
     \<not> adjacent_operators (expression (presses host ks initial)) \<and>
     (never_chains host ks initial \<longrightarrow> buffer_invariant (expression (presses host ks initial)))"
proof -
  assume g: "list_all (\<lambda>(env, value). grid_key value) ks"
  have s: "sound_state initial"
    by (simp add: sound_state_def initial_def result_shape_def)
  have b: "buffer_invariant (expression initial)"
    by (simp add: initial_def buffer_invariant_def keypad_char_def is_digit_def is_operator_def)
  from presses_sound[OF g s, of host] presses_buffer_invariant[OF g b, of host]
  show ?thesis by (auto simp: sound_state_def)
qed

text \<open>Digits, a replaced operator, a repeated dot, an evaluation and a deletion.\<close>

theorem buffer_invariant_amended_witness:
  "list_all (\<lambda>(env, value). grid_key value)
     [(clock 1, ''1''), (clock 2, ''2''), (clock 3, ''+''), (clock 4, ''*''), (clock 5, ''3''),
      (clock 6, ''.''), (clock 7, ''.''), (clock 8, ''=''), (clock 9, ''DEL'')] \<and>
   never_chains no_host
     [(clock 1, ''1''), (clock 2, ''2''), (clock 3, ''+''), (clock 4, ''*''), (clock 5, ''3''),
      (clock 6, ''.''), (clock 7, ''.''), (clock 8, ''=''), (clock 9, ''DEL'')] initial \<and>
   expression (presses no_host
     [(clock 1, ''1''), (clock 2, ''2''), (clock 3, ''+''), (clock 4, ''*''), (clock 5, ''3''),
      (clock 6, ''.''), (clock 7, ''.''), (clock 8, ''=''), (clock 9, ''DEL'')] initial) = ''12*3'' \<and>
   buffer_invariant ''12*3''"
proof -
  have v: "evaluateExpression no_host ''12*3.'' = ''36''"
    by (simp add: engine_eval print_eval)
  have g: "list_all (\<lambda>(env, value). grid_key value)
     [(clock 1, ''1''), (clock 2, ''2''), (clock 3, ''+''), (clock 4, ''*''), (clock 5, ''3''),
      (clock 6, ''.''), (clock 7, ''.''), (clock 8, ''=''), (clock 9, ''DEL'')]"
    by (simp add: grid_key_def BUTTON_LAYOUT_def)
  have e: "expression (presses no_host
     [(clock 1, ''1''), (clock 2, ''2''), (clock 3, ''+''), (clock 4, ''*''), (clock 5, ''3''),
      (clock 6, ''.''), (clock 7, ''.''), (clock 8, ''=''), (clock 9, ''DEL'')] initial) = ''12*3''"
    by (simp add: initial_def handleButtonPress_def updateExpression_def has_digit_def
          has_operator_def is_digit_def is_operator_def ends_with_operator_def lastNumber_def
          checkSecretCode_def SECRET_CODE_def v Let_def)
  have n: "never_chains no_host
     [(clock 1, ''1''), (clock 2, ''2''), (clock 3, ''+''), (clock 4, ''*''), (clock 5, ''3''),
      (clock 6, ''.''), (clock 7, ''.''), (clock 8, ''=''), (clock 9, ''DEL'')] initial"
    by (simp add: initial_def handleButtonPress_def updateExpression_def has_digit_def
          has_operator_def is_digit_def is_operator_def ends_with_operator_def lastNumber_def
          checkSecretCode_def SECRET_CODE_def v Let_def)
  show ?thesis
    using buffer_invariant_amended[OF g, of no_host] g n e by simp
qed

end
